theory Spec2Isabelle
  imports Main "HOL-Library.Sublist"
begin

section \<open>Python strings\<close>

text \<open>
  The scraper (\<^verbatim>\<open>src/app.py\<close>, class \<^verbatim>\<open>HEBScraper\<close>) works on Python \<^verbatim>\<open>str\<close>
  values read from the browser. A \<^verbatim>\<open>str\<close> is modelled as a \<^typ>\<open>string\<close>, one
  \<^typ>\<open>char\<close> per code point, so the model covers the code points below 256
  (Latin-1); \<^verbatim>\<open>len\<close> is \<^const>\<open>length\<close>, \<^verbatim>\<open>s[:n]\<close> is \<^const>\<open>take\<close>,
  \<^verbatim>\<open>a in s\<close> is \<^const>\<open>sublist\<close> and \<^verbatim>\<open>s.startswith(p)\<close> is \<^const>\<open>prefix\<close>.
\<close>

abbreviation py_in :: "string \<Rightarrow> string \<Rightarrow> bool" where
  "py_in needle s \<equiv> sublist needle s"

abbreviation startswith :: "string \<Rightarrow> string \<Rightarrow> bool" where
  "startswith s p \<equiv> prefix p s"

text \<open>\<^verbatim>\<open>str.isspace\<close> on one character; it is also the class \<^verbatim>\<open>\s\<close> of \<^verbatim>\<open>re\<close>.\<close>

definition isspace :: "char \<Rightarrow> bool" where
  "isspace c \<longleftrightarrow> c \<in> set [CHR 0x09, CHR 0x0A, CHR 0x0B, CHR 0x0C, CHR 0x0D,
     CHR 0x1C, CHR 0x1D, CHR 0x1E, CHR 0x1F, CHR 0x20, CHR 0x85, CHR 0xA0]"

text \<open>The class \<^verbatim>\<open>\d\<close> of \<^verbatim>\<open>re\<close>: the decimal digits.\<close>

definition isdigit :: "char \<Rightarrow> bool" where
  "isdigit c \<longleftrightarrow> c \<in> set ''0123456789''"

text \<open>\<^verbatim>\<open>s.strip()\<close>: leading and trailing whitespace removed.\<close>

definition strip :: "string \<Rightarrow> string" where
  "strip s = rev (dropWhile isspace (rev (dropWhile isspace s)))"

text \<open>\<^verbatim>\<open>s.lower()\<close>: A to Z and the upper-case letters of Latin-1 move up by 32,
  which sets the bit of value 32 (clear in all of them).\<close>

definition lower_char :: "char \<Rightarrow> char" where
  "lower_char c =
     (let n = (of_char c :: nat)
      in if (65 \<le> n \<and> n \<le> 90) \<or> (192 \<le> n \<and> n \<le> 222 \<and> n \<noteq> 215)
         then Char (digit0 c) (digit1 c) (digit2 c) (digit3 c) (digit4 c) True (digit6 c) (digit7 c)
         else c)"

definition lower :: "string \<Rightarrow> string" where
  "lower s = map lower_char s"

text \<open>\<^verbatim>\<open>s.split(sep)\<close> for a one-character separator: never empty, keeps empty pieces.\<close>

fun split_on :: "char \<Rightarrow> string \<Rightarrow> string list" where
  "split_on sep [] = [[]]"
| "split_on sep (c # cs) =
     (if c = sep then [] # split_on sep cs
      else (case split_on sep cs of [] \<Rightarrow> [[c]] | w # ws \<Rightarrow> (c # w) # ws))"

text \<open>\<^verbatim>\<open>s.split()\<close>: the maximal runs of non-whitespace characters; the first
  argument is the word being read.\<close>

fun split_ws :: "string \<Rightarrow> string \<Rightarrow> string list" where
  "split_ws w [] = (if w = [] then [] else [w])"
| "split_ws w (c # cs) =
     (if isspace c then (if w = [] then split_ws [] cs else w # split_ws [] cs)
      else split_ws (w @ [c]) cs)"

text \<open>Python truthiness of a value that is \<^verbatim>\<open>None\<close> or a \<^verbatim>\<open>str\<close>.\<close>

fun truthy :: "string option \<Rightarrow> bool" where
  "truthy None = False"
| "truthy (Some s) = (s \<noteq> [])"

text \<open>\<^verbatim>\<open>a or b\<close> on such values: the first operand when it is truthy, else the second.\<close>

definition py_or :: "string option \<Rightarrow> string option \<Rightarrow> string option" where
  "py_or a b = (if truthy a then a else b)"

section \<open>The regular expressions of the scraper\<close>

text \<open>
  Each pattern the code hands to \<^verbatim>\<open>re\<close> is translated by hand into the function that
  computes the match \<^verbatim>\<open>re\<close> finds. In every pattern below the greedy choice is the only
  one that can succeed or is the longest one, so no backtracking is needed except where
  it is written out.
\<close>

text \<open>The class \<^verbatim>\<open>[\d,]\<close>.\<close>

definition price_char :: "char \<Rightarrow> bool" where
  "price_char c \<longleftrightarrow> isdigit c \<or> c = CHR '',''"

text \<open>\<^verbatim>\<open>[\d,]+\.?\d*\<close> at the start of \<open>s\<close>: the text matched and the rest.\<close>

definition amount_at :: "string \<Rightarrow> (string \<times> string) option" where
  "amount_at s =
     (let x = takeWhile price_char s; r = dropWhile price_char s
      in if x = [] then None
         else (case r of
                 c # r' \<Rightarrow>
                   if c = CHR ''.'' then Some (x @ ''.'' @ takeWhile isdigit r', dropWhile isdigit r')
                   else Some (x, r)
               | [] \<Rightarrow> Some (x, r)))"

text \<open>\<^verbatim>\<open>\$[\d,]+\.?\d*\<close> at the start of \<open>s\<close>: the text matched and the rest.\<close>

definition price_at :: "string \<Rightarrow> (string \<times> string) option" where
  "price_at s =
     (case s of
        [] \<Rightarrow> None
      | c # r \<Rightarrow>
          if c = CHR ''$'' then (case amount_at r of None \<Rightarrow> None | Some (m, r') \<Rightarrow> Some (c # m, r'))
          else None)"

text \<open>\<^verbatim>\<open>re.search(r'\$[\d,]+\.?\d*', s)\<close>: \<^verbatim>\<open>group()\<close> of the leftmost match.\<close>

fun price_search :: "string \<Rightarrow> string option" where
  "price_search [] = None"
| "price_search (c # cs) =
     (case price_at (c # cs) of Some (m, r) \<Rightarrow> Some m | None \<Rightarrow> price_search cs)"

text \<open>\<^verbatim>\<open>re.match(r'^\$[\d,]+\.?\d*$', s)\<close> as a truth value; \<^verbatim>\<open>$\<close> also matches before
  a final newline.\<close>

definition pure_price :: "string \<Rightarrow> bool" where
  "pure_price s = (case price_at s of None \<Rightarrow> False | Some (m, r) \<Rightarrow> r = [] \<or> r = [CHR 0x0A])"

text \<open>\<^verbatim>\<open>re.match(r'^\$[\d,]+\.?\d*', s)\<close> as a truth value.\<close>

definition price_prefix :: "string \<Rightarrow> bool" where
  "price_prefix s = (price_at s \<noteq> None)"

text \<open>\<^verbatim>\<open>\$\s*[\d,]+\.?\d*\<close> at the start of \<open>s\<close>.\<close>

definition spaced_price_at :: "string \<Rightarrow> string option" where
  "spaced_price_at s =
     (case s of
        [] \<Rightarrow> None
      | c # r \<Rightarrow>
          if c = CHR ''$''
          then (case amount_at (dropWhile isspace r) of
                  None \<Rightarrow> None
                | Some (m, r') \<Rightarrow> Some (c # takeWhile isspace r @ m))
          else None)"

fun spaced_price_search :: "string \<Rightarrow> string option" where
  "spaced_price_search [] = None"
| "spaced_price_search (c # cs) =
     (case spaced_price_at (c # cs) of Some m \<Rightarrow> Some m | None \<Rightarrow> spaced_price_search cs)"

text \<open>\<^verbatim>\<open>[\d,]+\.?\d*\s*\$\<close> at the start of \<open>s\<close>: after the greedy amount and the
  whitespace a dollar sign must follow; a shorter amount ends before a character that is
  neither whitespace nor the dollar sign, so it cannot succeed either.\<close>

definition reversed_price_at :: "string \<Rightarrow> string option" where
  "reversed_price_at s =
     (case amount_at s of
        None \<Rightarrow> None
      | Some (m, r) \<Rightarrow>
          (case dropWhile isspace r of
             [] \<Rightarrow> None
           | c # r' \<Rightarrow> if c = CHR ''$'' then Some (m @ takeWhile isspace r @ [c]) else None))"

fun reversed_price_search :: "string \<Rightarrow> string option" where
  "reversed_price_search [] = None"
| "reversed_price_search (c # cs) =
     (case reversed_price_at (c # cs) of Some m \<Rightarrow> Some m | None \<Rightarrow> reversed_price_search cs)"

text \<open>The class \<^verbatim>\<open>["\']\<close>.\<close>

definition isquote :: "char \<Rightarrow> bool" where
  "isquote c \<longleftrightarrow> c = CHR 0x22 \<or> c = CHR 0x27"

text \<open>\<^verbatim>\<open>["\']([^"\']*heb\.com[^"\']*)["\']\<close> at the start of \<open>s\<close>: the group is the
  whole run between one quote and the next.\<close>

definition onclick_at :: "string \<Rightarrow> string option" where
  "onclick_at s =
     (case s of
        [] \<Rightarrow> None
      | q # r \<Rightarrow>
          if isquote q
          then (let g = takeWhile (\<lambda>c. \<not> isquote c) r; r' = dropWhile (\<lambda>c. \<not> isquote c) r
                in if r' \<noteq> [] \<and> py_in ''heb.com'' g then Some g else None)
          else None)"

text \<open>\<^verbatim>\<open>re.search\<close> of that pattern: \<^verbatim>\<open>group(1)\<close> of the leftmost match.\<close>

fun onclick_search :: "string \<Rightarrow> string option" where
  "onclick_search [] = None"
| "onclick_search (c # cs) =
     (case onclick_at (c # cs) of Some g \<Rightarrow> Some g | None \<Rightarrow> onclick_search cs)"

text \<open>\<^verbatim>\<open>url\(["\']?([^"\']+)["\']?\)\<close> at the start of \<open>s\<close>. A quote after
  \<^verbatim>\<open>url(\<close> has to be taken. The group is first tried as the whole run \<open>g\<close> of
  non-quote characters, which needs a quote and a closing parenthesis after it; then
  \<^verbatim>\<open>re\<close> backtracks to the longest non-empty part of \<open>g\<close> that ends before a closing
  parenthesis of \<open>g\<close>.\<close>

definition bg_url_at :: "string \<Rightarrow> string option" where
  "bg_url_at s =
     (if startswith s ''url(''
      then (let r = drop 4 s;
                r0 = (case r of [] \<Rightarrow> r | q # t \<Rightarrow> if isquote q then t else r);
                g = takeWhile (\<lambda>c. \<not> isquote c) r0;
                r' = dropWhile (\<lambda>c. \<not> isquote c) r0;
                shorter = rev (drop 1 (dropWhile (\<lambda>c. c \<noteq> CHR '')'') (rev g)))
            in if g = [] then None
               else if (case r' of q # c # t \<Rightarrow> c = CHR '')'' | _ \<Rightarrow> False) then Some g
               else if shorter = [] then None
               else Some shorter)
      else None)"

fun bg_url_search :: "string \<Rightarrow> string option" where
  "bg_url_search [] = None"
| "bg_url_search (c # cs) =
     (case bg_url_at (c # cs) of Some g \<Rightarrow> Some g | None \<Rightarrow> bg_url_search cs)"

section \<open>The page as the browser shows it\<close>

text \<open>
  A \<^verbatim>\<open>WebElement\<close> is a handle on a node of the page. The model takes one snapshot of
  the page: each call the code makes on a handle is a field of the handle, a total
  function of the snapshot. \<open>node\<close> is the identity of the DOM node (what
  \<^verbatim>\<open>WebElement.__eq__\<close> compares) and \<open>py_id\<close> is \<^verbatim>\<open>id(elem)\<close>, the identity of the
  Python object. The exceptions of the model are the ones the code provokes on such a
  snapshot: \<^verbatim>\<open>find_element\<close> without a match, a local variable read before it is
  assigned, and slicing \<^verbatim>\<open>None\<close>.
\<close>

datatype element = Element
  (node: nat)
  (py_id: nat)
  (tag_name: string)
  (get_attribute: "string \<Rightarrow> string option")
  (elem_text: string)
  (elem_size: "int \<times> int")
  (find_elements_tag: "string \<Rightarrow> element list")
  (find_elements_css: "string \<Rightarrow> element list")
  (find_elements_xpath: "string \<Rightarrow> element list")

datatype py_error =
    NoSuchElementException
  | UnboundLocalError string
  | TypeError
  | WebDriverException

text \<open>\<^verbatim>\<open>elem.find_element(By.TAG_NAME, tag)\<close>: the first match, or it raises.\<close>

definition find_element_tag :: "element \<Rightarrow> string \<Rightarrow> py_error + element" where
  "find_element_tag e tag =
     (case find_elements_tag e tag of [] \<Rightarrow> Inl NoSuchElementException | x # xs \<Rightarrow> Inr x)"

section \<open>The product record\<close>

record product =
  product_title :: "string option"
  product_price :: "string option"
  product_image :: "string option"
  product_hyperlink :: "string option"

definition empty_product :: product where
  "empty_product =
     \<lparr>product_title = None, product_price = None, product_image = None,
      product_hyperlink = None\<rparr>"

definition base_url :: string where
  "base_url = ''https://heb.com''"

text \<open>The normalisation every strategy applies to a URL:
  \<^verbatim>\<open>if not u.startswith('http'): u = base_url + u if u.startswith('/') else f"{base_url}/{u}"\<close>.\<close>

definition absolutize :: "string \<Rightarrow> string" where
  "absolutize u =
     (if startswith u ''http'' then u
      else if startswith u ''/'' then base_url @ u
      else base_url @ ''/'' @ u)"

text \<open>A later strategy of a field: \<^verbatim>\<open>if not product[k]: try: ... product[k] = v\<close>. It
  runs only while the field is falsy and leaves the field alone when it finds nothing.\<close>

definition or_else :: "string option \<Rightarrow> string option \<Rightarrow> string option" where
  "or_else cur found = (if truthy cur then cur else (case found of None \<Rightarrow> cur | Some v \<Rightarrow> Some v))"

section \<open>Field extraction: hyperlink\<close>

text \<open>Strategies 1 and 2 treat the \<^verbatim>\<open>href\<close> they read in the same way
  (lines 1190 to 1194 and 1202 to 1206).\<close>

definition site_href :: "string option \<Rightarrow> string option" where
  "site_href href =
     (case href of
        None \<Rightarrow> None
      | Some h \<Rightarrow>
          if h \<noteq> [] \<and> strip h \<noteq> []
          then (let h' = absolutize h in if py_in ''heb.com'' h' then Some h' else None)
          else None)"

definition link_strategy1 :: "element \<Rightarrow> string option" where
  "link_strategy1 e =
     (if lower (tag_name e) = ''a'' then site_href (get_attribute e ''href'') else None)"

definition link_strategy2 :: "element \<Rightarrow> string option" where
  "link_strategy2 e =
     (case find_element_tag e ''a'' of
        Inl err \<Rightarrow> None
      | Inr link_elem \<Rightarrow> site_href (get_attribute link_elem ''href''))"

text \<open>Strategy 3 tests for the site's name before it normalises.\<close>

fun link_strategy3 :: "element list \<Rightarrow> string option" where
  "link_strategy3 [] = None"
| "link_strategy3 (link # links) =
     (case get_attribute link ''href'' of
        None \<Rightarrow> link_strategy3 links
      | Some h \<Rightarrow>
          if h \<noteq> [] \<and> strip h \<noteq> [] \<and> py_in ''heb.com'' h then Some (absolutize h)
          else link_strategy3 links)"

definition link_strategy4 :: "element \<Rightarrow> string option" where
  "link_strategy4 e =
     (let onclick = (case get_attribute e ''onclick'' of None \<Rightarrow> [] | Some s \<Rightarrow> s)
      in onclick_search onclick)"

definition extract_hyperlink :: "element \<Rightarrow> string option" where
  "extract_hyperlink e =
     or_else (or_else (or_else (link_strategy1 e)
       (link_strategy2 e))
       (link_strategy3 (find_elements_tag e ''a'')))
       (link_strategy4 e)"

section \<open>Field extraction: title\<close>

definition title_selectors :: "string list" where
  "title_selectors =
     [''h1'', ''h2'', ''h3'', ''h4'', ''h5'', ''h6'',
      ''[data-testid*='title' i]'', ''[data-testid*='name' i]'',
      ''[data-testid*='Title' i]'', ''[data-testid*='Name' i]'',
      ''[aria-label]'', ''.product-title'', ''.product-name'',
      ''[class*='title' i]'', ''[class*='name' i]'', ''[class*='Title' i]'', ''[class*='Name' i]'',
      ''span[class*='title' i]'', ''span[class*='name' i]'',
      ''div[class*='title' i]'', ''div[class*='name' i]'',
      ''a[class*='title' i]'', ''a[class*='name' i]'',
      ''p[class*='title' i]'', ''p[class*='name' i]'',
      ''*[class*='heading' i]'', ''*[class*='label' i]'']"

text \<open>The test of strategy 1 on the stripped text of a descendant (lines 1267 to 1275).\<close>

definition title_valid :: "string \<Rightarrow> bool" where
  "title_valid title \<longleftrightarrow>
     title \<noteq> [] \<and> 5 \<le> length title \<and> length title \<le> 200 \<and>
     \<not> pure_price title \<and>
     \<not> py_in ''price'' (lower title) \<and>
     \<not> py_in ''add to cart'' (lower title) \<and>
     \<not> py_in ''buy now'' (lower title) \<and>
     \<not> py_in ''view'' (lower title) \<and>
     \<not> py_in ''shop'' (lower title) \<and>
     \<not> py_in ''category'' (lower title)"

text \<open>The inner loop of strategy 1 over the matches of one selector.\<close>

fun first_title :: "element list \<Rightarrow> string option" where
  "first_title [] = None"
| "first_title (title_elem # title_elems) =
     (let title = strip (elem_text title_elem)
      in if title_valid title then Some (take 150 title) else first_title title_elems)"

text \<open>The outer loop of strategy 1. A title the inner loop sets has at least five
  characters, so the test \<^verbatim>\<open>if product['product_title']: break\<close> after the inner loop
  succeeds exactly when the inner loop has set one.\<close>

fun title_strategy1 :: "element \<Rightarrow> string list \<Rightarrow> string option" where
  "title_strategy1 e [] = None"
| "title_strategy1 e (selector # selectors) =
     (case first_title (find_elements_css e selector) of
        Some t \<Rightarrow> Some t
      | None \<Rightarrow> title_strategy1 e selectors)"

text \<open>\<^verbatim>\<open>[line.strip() for line in all_text.split('\n') if line.strip()]\<close>.\<close>

definition text_lines :: "string \<Rightarrow> string list" where
  "text_lines all_text = map strip (filter (\<lambda>line. strip line \<noteq> []) (split_on (CHR 0x0A) all_text))"

text \<open>The test of strategy 2 on one line (lines 1291 to 1299).\<close>

definition line_valid :: "string \<Rightarrow> bool" where
  "line_valid line \<longleftrightarrow>
     5 \<le> length line \<and> length line \<le> 200 \<and>
     \<not> price_prefix line \<and>
     \<not> py_in ''price'' (lower line) \<and>
     \<not> py_in ''add to cart'' (lower line) \<and>
     \<not> py_in ''buy now'' (lower line) \<and>
     \<not> py_in ''view details'' (lower line) \<and>
     \<not> py_in ''shop now'' (lower line) \<and>
     \<not> py_in ''learn more'' (lower line) \<and>
     2 \<le> length (split_ws [] line)"

fun first_line :: "string list \<Rightarrow> string option" where
  "first_line [] = None"
| "first_line (line # lines) =
     (if line_valid line then Some (take 150 line) else first_line lines)"

definition title_strategy2 :: "element \<Rightarrow> string option" where
  "title_strategy2 e =
     (let all_text = strip (elem_text e)
      in if all_text \<noteq> [] then first_line (text_lines all_text) else None)"

definition title_strategy2b :: "element \<Rightarrow> string option" where
  "title_strategy2b e =
     (if lower (tag_name e) = ''a''
      then (let link_text = strip (elem_text e)
            in if link_text \<noteq> [] \<and> 5 \<le> length link_text \<and> length link_text \<le> 200 \<and>
                  \<not> pure_price link_text
               then Some (take 150 link_text) else None)
      else None)"

text \<open>Strategies 3 and 4 read an attribute: \<^verbatim>\<open>aria-label\<close>, then \<^verbatim>\<open>title\<close>.\<close>

definition title_from_attribute :: "element \<Rightarrow> string \<Rightarrow> string option" where
  "title_from_attribute e name =
     (case get_attribute e name of
        None \<Rightarrow> None
      | Some a \<Rightarrow> if a \<noteq> [] \<and> 5 \<le> length a \<and> length a \<le> 200 then Some (take 150 a) else None)"

definition extract_title :: "element \<Rightarrow> string option" where
  "extract_title e =
     or_else (or_else (or_else (or_else (title_strategy1 e title_selectors)
       (title_strategy2 e))
       (title_strategy2b e))
       (title_from_attribute e ''aria-label''))
       (title_from_attribute e ''title'')"

section \<open>Field extraction: price\<close>

definition price_selectors :: "string list" where
  "price_selectors =
     [''[data-testid*='price' i]'', ''[data-testid*='Price' i]'', ''.price'',
      ''[class*='price' i]'', ''[class*='Price' i]'',
      ''span[class*='price' i]'', ''div[class*='price' i]'', ''p[class*='price' i]'',
      ''[aria-label*='price' i]'', ''[class*='cost' i]'', ''[class*='amount' i]'',
      ''[class*='value' i]'']"

text \<open>The loop over elements that strategies 1 and 4 share: the first element whose
  stripped text holds a price gives it.\<close>

fun first_price :: "element list \<Rightarrow> string option" where
  "first_price [] = None"
| "first_price (price_elem # price_elems) =
     (let price_text = strip (elem_text price_elem)
      in if price_text \<noteq> []
         then (case price_search price_text of
                 Some m \<Rightarrow> Some m
               | None \<Rightarrow> first_price price_elems)
         else first_price price_elems)"

text \<open>A price the inner loop sets starts with the dollar sign, so the test
  \<^verbatim>\<open>if product['product_price']: break\<close> succeeds exactly when it has set one.\<close>

fun price_strategy1 :: "element \<Rightarrow> string list \<Rightarrow> string option" where
  "price_strategy1 e [] = None"
| "price_strategy1 e (selector # selectors) =
     (case first_price (find_elements_css e selector) of
        Some m \<Rightarrow> Some m
      | None \<Rightarrow> price_strategy1 e selectors)"

definition price_patterns :: "(string \<Rightarrow> string option) list" where
  "price_patterns = [price_search, spaced_price_search, reversed_price_search]"

fun first_pattern :: "(string \<Rightarrow> string option) list \<Rightarrow> string \<Rightarrow> string option" where
  "first_pattern [] all_text = None"
| "first_pattern (pattern # patterns) all_text =
     (case pattern all_text of
        Some m \<Rightarrow> Some (strip m)
      | None \<Rightarrow> first_pattern patterns all_text)"

definition price_strategy2 :: "element \<Rightarrow> string option" where
  "price_strategy2 e =
     (let all_text = elem_text e
      in if all_text \<noteq> [] then first_pattern price_patterns all_text else None)"

definition price_strategy3 :: "element \<Rightarrow> string option" where
  "price_strategy3 e =
     (case get_attribute e ''innerHTML'' of
        None \<Rightarrow> None
      | Some inner_html \<Rightarrow> if inner_html \<noteq> [] then price_search inner_html else None)"

definition price_strategy4 :: "element \<Rightarrow> string option" where
  "price_strategy4 e = first_price (find_elements_xpath e ''.//*'')"

definition extract_price :: "element \<Rightarrow> string option" where
  "extract_price e =
     or_else (or_else (or_else (price_strategy1 e price_selectors)
       (price_strategy2 e))
       (price_strategy3 e))
       (price_strategy4 e)"

section \<open>Field extraction: image\<close>

definition image_attrs :: "string list" where
  "image_attrs =
     [''src'', ''data-src'', ''data-lazy-src'', ''data-original'', ''data-image'', ''data-img'',
      ''data-product-image'']"

text \<open>\<^verbatim>\<open>img_src and img_src.strip() and img_src != 'null' and img_src != 'undefined'\<close>.\<close>

definition good_src :: "string option \<Rightarrow> bool" where
  "good_src v =
     (case v of
        None \<Rightarrow> False
      | Some s \<Rightarrow> s \<noteq> [] \<and> strip s \<noteq> [] \<and> s \<noteq> ''null'' \<and> s \<noteq> ''undefined'')"

text \<open>The loop over the attribute names stops at the first good value; when none is
  good it leaves the last value read, which the same test after the loop rejects.\<close>

fun first_src :: "element \<Rightarrow> string list \<Rightarrow> string option" where
  "first_src img_elem [] = None"
| "first_src img_elem (attr # attrs) =
     (let img_src = get_attribute img_elem attr
      in if good_src img_src then img_src else first_src img_elem attrs)"

text \<open>\<^verbatim>\<open>if ',' in img_src: img_src = img_src.split(',')[0].strip().split(' ')[0]\<close>;
  \<^verbatim>\<open>s.split(c)[0]\<close> is the part of \<open>s\<close> before the first \<open>c\<close>.\<close>

definition srcset_first :: "string \<Rightarrow> string" where
  "srcset_first s =
     (if CHR '','' \<in> set s
      then takeWhile (\<lambda>c. c \<noteq> CHR '' '') (strip (takeWhile (\<lambda>c. c \<noteq> CHR '','') s))
      else s)"

definition skip_keywords :: "string list" where
  "skip_keywords = [''placeholder'', ''logo'', ''icon'', ''sprite'', ''1x1'', ''blank'']"

fun image_strategy1 :: "element list \<Rightarrow> string option" where
  "image_strategy1 [] = None"
| "image_strategy1 (img_elem # img_elems) =
     (case first_src img_elem image_attrs of
        None \<Rightarrow> image_strategy1 img_elems
      | Some s \<Rightarrow>
          (let img_src = absolutize (srcset_first s)
           in if \<not> list_ex (\<lambda>keyword. py_in keyword (lower img_src)) skip_keywords
              then Some img_src
              else image_strategy1 img_elems))"

fun image_strategy2 :: "element list \<Rightarrow> string option" where
  "image_strategy2 [] = None"
| "image_strategy2 (img_elem # img_elems) =
     (case py_or (py_or (get_attribute img_elem ''src'') (get_attribute img_elem ''data-src''))
             (get_attribute img_elem ''srcset'') of
        None \<Rightarrow> image_strategy2 img_elems
      | Some s \<Rightarrow>
          if s \<noteq> [] \<and> strip s \<noteq> []
          then (let img_src = absolutize (srcset_first s)
                in if \<not> py_in ''placeholder'' (lower img_src) \<and> \<not> py_in ''logo'' (lower img_src)
                   then Some img_src
                   else image_strategy2 img_elems)
          else image_strategy2 img_elems)"

text \<open>Strategy 2b keeps the source of the image with the largest rendered area.\<close>

fun best_image :: "element list \<Rightarrow> string option \<Rightarrow> int \<Rightarrow> string option" where
  "best_image [] best_img best_size = best_img"
| "best_image (img_elem # img_elems) best_img best_size =
     (if tag_name img_elem = ''img''
      then (case py_or (py_or (get_attribute img_elem ''src'') (get_attribute img_elem ''data-src''))
                   (get_attribute img_elem ''data-lazy-src'') of
              None \<Rightarrow> best_image img_elems best_img best_size
            | Some s \<Rightarrow>
                if s \<noteq> [] \<and> strip s \<noteq> []
                then (let img_size = fst (elem_size img_elem) * snd (elem_size img_elem)
                      in if img_size > best_size \<and> \<not> py_in ''placeholder'' (lower s)
                         then best_image img_elems (Some s) img_size
                         else best_image img_elems best_img best_size)
                else best_image img_elems best_img best_size)
      else best_image img_elems best_img best_size)"

definition image_strategy2b :: "element \<Rightarrow> string option" where
  "image_strategy2b e =
     (case best_image
             (find_elements_css e (''img, [style*='' @ [CHR 0x22] @ ''background-image'' @ [CHR 0x22] @ '']''))
             None 0 of
        None \<Rightarrow> None
      | Some best_img \<Rightarrow> if best_img \<noteq> [] then Some (absolutize best_img) else None)"

definition image_strategy3 :: "element \<Rightarrow> string option" where
  "image_strategy3 e =
     (let style = (case get_attribute e ''style'' of None \<Rightarrow> [] | Some s \<Rightarrow> s)
      in (case bg_url_search style of None \<Rightarrow> None | Some img_src \<Rightarrow> Some (absolutize img_src)))"

definition extract_image :: "element \<Rightarrow> string option" where
  "extract_image e =
     or_else (or_else (or_else (image_strategy1 (find_elements_tag e ''img''))
       (image_strategy2 (find_elements_css e ''picture img, picture source'')))
       (image_strategy2b e))
       (image_strategy3 e)"

section \<open>\<^verbatim>\<open>extract_product_data\<close>\<close>

text \<open>
  The record starts with four \<^verbatim>\<open>None\<close> fields. For the first three candidates the code
  first slices \<^verbatim>\<open>element.get_attribute('outerHTML')\<close>; when that attribute is \<^verbatim>\<open>None\<close>
  the slice raises \<^verbatim>\<open>TypeError\<close>, the handler around the whole body catches it and the
  record is returned as it started. Otherwise the four fields are extracted in the order
  hyperlink, title, price, image; none of them reads another.
\<close>

definition extract_product_data :: "element \<Rightarrow> nat \<Rightarrow> product" where
  "extract_product_data element index =
     (if index < 3 \<and> get_attribute element ''outerHTML'' = None then empty_product
      else \<lparr>product_title = extract_title element,
            product_price = extract_price element,
            product_image = extract_image element,
            product_hyperlink = extract_hyperlink element\<rparr>)"

section \<open>\<^verbatim>\<open>extract_products\<close>: accepting records\<close>

text \<open>The exclusion list: \<^verbatim>\<open>'/category/' in u or '/department/' in u or '/shop/' in u\<close>.\<close>

definition is_category_url :: "string \<Rightarrow> bool" where
  "is_category_url u \<longleftrightarrow> py_in ''/category/'' u \<or> py_in ''/department/'' u \<or> py_in ''/shop/'' u"

text \<open>\<^verbatim>\<open>v and v not in s\<close> and \<^verbatim>\<open>if v: s.add(v)\<close> for a value that is \<^verbatim>\<open>None\<close> or a
  \<^verbatim>\<open>str\<close>.\<close>

definition fresh :: "string option \<Rightarrow> string set \<Rightarrow> bool" where
  "fresh v s = (case v of None \<Rightarrow> False | Some x \<Rightarrow> x \<noteq> [] \<and> x \<notin> s)"

definition add_truthy :: "string option \<Rightarrow> string set \<Rightarrow> string set" where
  "add_truthy v s = (case v of None \<Rightarrow> s | Some x \<Rightarrow> if x \<noteq> [] then insert x s else s)"

text \<open>\<^verbatim>\<open>unique_key = product_url if product_url else product_title\<close> (line 1154).\<close>

definition unique_key :: "product \<Rightarrow> string option" where
  "unique_key product_data =
     (if truthy (product_hyperlink product_data) then product_hyperlink product_data
      else product_title product_data)"

text \<open>Lines 1142 to 1149: the record has a title, a price or an image, and its hyperlink
  is not on the exclusion list.\<close>

definition acceptable :: "product \<Rightarrow> bool" where
  "acceptable product_data \<longleftrightarrow>
     (let product_url = product_hyperlink product_data;
          is_category = (case product_url of
                           None \<Rightarrow> False
                         | Some u \<Rightarrow> u \<noteq> [] \<and> is_category_url u);
          has_essential_data = (truthy (product_title product_data) \<or>
                                truthy (product_price product_data) \<or>
                                truthy (product_image product_data))
      in has_essential_data \<and> \<not> is_category)"

text \<open>The loop of lines 1136 to 1168 over the candidates, with their positions. It
  appends to the local list \<open>products\<close> and adds to \<^verbatim>\<open>self.seen_urls\<close>.\<close>

fun extract_loop ::
  "nat \<Rightarrow> element list \<Rightarrow> product list \<Rightarrow> string set \<Rightarrow> product list \<times> string set" where
  "extract_loop idx [] products seen_urls = (products, seen_urls)"
| "extract_loop idx (element # rest) products seen_urls =
     (let product_data = extract_product_data element idx
      in if acceptable product_data \<and> fresh (unique_key product_data) seen_urls
         then extract_loop (Suc idx) rest (products @ [product_data])
                (add_truthy (unique_key product_data) seen_urls)
         else extract_loop (Suc idx) rest products seen_urls)"

text \<open>\<^verbatim>\<open>xs if n is None else xs[:n]\<close>; a negative \<open>n\<close> counts from the end.\<close>

definition py_take :: "int option \<Rightarrow> 'a list \<Rightarrow> 'a list" where
  "py_take n xs =
     (case n of
        None \<Rightarrow> xs
      | Some k \<Rightarrow> if 0 \<le> k then take (nat k) xs else take (nat (int (length xs) + k)) xs)"

text \<open>
  \<^verbatim>\<open>extract_products\<close> from line 1100 on. The list \<open>product_elements\<close> of located
  candidates, which lines 860 to 1098 compute from the page, is the first argument here:
  any list of handles. The result is the list the method returns and the new value of
  \<^verbatim>\<open>self.seen_urls\<close>.
\<close>

definition extract_products ::
  "element list \<Rightarrow> int option \<Rightarrow> string set \<Rightarrow> product list \<times> string set" where
  "extract_products product_elements max_products seen_urls =
     (if product_elements = [] then ([], seen_urls)
      else extract_loop 0 (py_take max_products product_elements) [] seen_urls)"

section \<open>\<^verbatim>\<open>scrape_category_page\<close>: two passes and the merge\<close>

record scraper =
  products :: "product list"
  seen_urls :: "string set"

text \<open>\<^verbatim>\<open>HEBScraper.__init__\<close>: nothing scraped, nothing seen.\<close>

definition init_scraper :: scraper where
  "init_scraper = \<lparr>products = [], seen_urls = {}\<rparr>"

text \<open>\<^verbatim>\<open>{p.get(k) for p in self.products if p.get(k)}\<close> for a field \<open>k\<close>.\<close>

definition existing :: "(product \<Rightarrow> string option) \<Rightarrow> product list \<Rightarrow> string set" where
  "existing field ps = set (concat (map (\<lambda>p. case field p of None \<Rightarrow> [] | Some x \<Rightarrow> if x \<noteq> [] then [x] else []) ps))"

text \<open>The loop of lines 254 to 263 over the records of the second pass; the result is
  \<open>new_products\<close>.\<close>

fun merge_loop :: "product list \<Rightarrow> string set \<Rightarrow> string set \<Rightarrow> product list" where
  "merge_loop [] existing_urls existing_titles = []"
| "merge_loop (p # ps) existing_urls existing_titles =
     (let url = product_hyperlink p; title = product_title p
      in if fresh url existing_urls \<or> fresh title existing_titles
         then p # merge_loop ps (add_truthy url existing_urls) (add_truthy title existing_titles)
         else merge_loop ps existing_urls existing_titles)"

text \<open>Lines 251 to 266: the merge of the second pass into \<^verbatim>\<open>self.products\<close>.\<close>

definition merge_pass2 :: "product list \<Rightarrow> product list \<Rightarrow> product list" where
  "merge_pass2 ps products_pass2 =
     ps @ merge_loop products_pass2 (existing product_hyperlink ps) (existing product_title ps)"

text \<open>
  \<^verbatim>\<open>scrape_category_page\<close>. What the browser does is given by four arguments:
  \<open>loaded\<close> says whether navigation, scrolling and the checks before the first pass
  (lines 171 to 228) end without an exception, \<open>elements1\<close> is the list of candidates the
  first pass locates, \<open>rescrolled\<close> says whether the two scroll scripts between the passes
  (lines 243 to 246) end without an exception, and \<open>elements2\<close> is the list the second pass
  locates. The handler around the body returns \<^verbatim>\<open>[]\<close> after an exception and keeps
  what \<^verbatim>\<open>self\<close> holds at that point.
\<close>

definition scrape_category_page ::
  "scraper \<Rightarrow> bool \<Rightarrow> element list \<Rightarrow> bool \<Rightarrow> element list \<Rightarrow> product list \<times> scraper" where
  "scrape_category_page self loaded elements1 rescrolled elements2 =
     (if \<not> loaded then ([], self)
      else (let (products1, seen1) = extract_products elements1 None (seen_urls self);
                self1 = \<lparr>products = products self @ products1, seen_urls = seen1\<rparr>
            in if \<not> rescrolled then ([], self1)
               else (let (products_pass2, seen2) = extract_products elements2 None seen1
                     in (products1,
                         \<lparr>products = merge_pass2 (products self1) products_pass2,
                          seen_urls = seen2\<rparr>))))"

text \<open>The \<^verbatim>\<open>DedupKey\<close> of the specification: the hyperlink if present, else the title.\<close>

definition dedup_key :: "product \<Rightarrow> string option" where
  "dedup_key r = (case product_hyperlink r of Some u \<Rightarrow> Some u | None \<Rightarrow> product_title r)"

section \<open>Example pages\<close>

text \<open>Handles of a small page, used to run the definitions: a product tile with an
  image and a link, and the record \<^verbatim>\<open>extract_product_data\<close> builds from it.\<close>

definition milk_img :: element where
  "milk_img = Element 3 3 ''img'' (map_of [(''src'', ''/images/milk.png'')]) [] (120, 120)
     (\<lambda>tag. []) (\<lambda>selector. []) (\<lambda>path. [])"

definition milk_link :: element where
  "milk_link = Element 2 2 ''a'' (map_of [(''href'', ''https://www.heb.com/product/milk'')])
     ''Whole Milk 1 gal'' (120, 20) (\<lambda>tag. []) (\<lambda>selector. []) (\<lambda>path. [])"

definition milk_tile :: element where
  "milk_tile = Element 1 1 ''div'' (map_of [(''outerHTML'', ''<div>'')])
     (''Whole Milk 1 gal'' @ [CHR 0x0A] @ ''$3.99'') (300, 400)
     (\<lambda>tag. if tag = ''img'' then [milk_img] else if tag = ''a'' then [milk_link] else [])
     (\<lambda>selector. [])
     (\<lambda>path. if path = ''.//*'' then [milk_link, milk_img] else [])"

definition milk :: product where
  "milk = \<lparr>product_title = Some ''Whole Milk 1 gal'', product_price = Some ''$3.99'',
     product_image = Some ''https://heb.com/images/milk.png'',
     product_hyperlink = Some ''https://www.heb.com/product/milk''\<rparr>"

definition offsite_link :: element where
  "offsite_link = Element 4 4 ''a''
     (map_of [(''href'', ''http://example.org/heb.com/deal''), (''outerHTML'', ''<a>'')])
     ''Great Deal Today'' (200, 200)
     (\<lambda>tag. if tag = ''img'' then [milk_img] else [])
     (\<lambda>selector. [])
     (\<lambda>path. if path = ''.//*'' then [milk_img] else [])"

definition offsite_deal :: product where
  "offsite_deal = \<lparr>product_title = Some ''Great Deal Today'', product_price = None,
     product_image = Some ''https://heb.com/images/milk.png'',
     product_hyperlink = Some ''http://example.org/heb.com/deal''\<rparr>"

section \<open>Notions of the specification\<close>

text \<open>The specification's invariant on hyperlinks speaks of an absolute URL scoped to
  the domain of the site. \<open>url_host\<close> is the host of an absolute \<^verbatim>\<open>http\<close> or
  \<^verbatim>\<open>https\<close> URL, and \<open>on_site_domain\<close> says that this host is \<^verbatim>\<open>heb.com\<close> or one
  of its subdomains.\<close>

definition url_host :: "string \<Rightarrow> string option" where
  "url_host u =
     (if startswith u ''https://'' then Some (takeWhile (\<lambda>c. c \<notin> set ''/?#:'') (drop 8 u))
      else if startswith u ''http://'' then Some (takeWhile (\<lambda>c. c \<notin> set ''/?#:'') (drop 7 u))
      else None)"

definition on_site_domain :: "string \<Rightarrow> bool" where
  "on_site_domain u =
     (case url_host u of
        None \<Rightarrow> False
      | Some h \<Rightarrow> lower h = ''heb.com'' \<or> suffix ''.heb.com'' (lower h))"

text \<open>The state the accumulator keeps between page visits: the records of
  \<^verbatim>\<open>self.products\<close> have pairwise different \<^verbatim>\<open>DedupKey\<close>s, and each of these keys
  is in \<^verbatim>\<open>self.seen_urls\<close>. It holds when the scraper is created and every call of
  \<^verbatim>\<open>scrape_category_page\<close> keeps it.\<close>

definition keys_tracked :: "scraper \<Rightarrow> bool" where
  "keys_tracked self \<longleftrightarrow>
     distinct (map dedup_key (products self)) \<and>
     (\<forall>p\<in>set (products self). \<exists>k. dedup_key p = Some k \<and> k \<in> seen_urls self)"

definition price_tag :: element where
  "price_tag = Element 5 5 ''span'' (map_of [(''outerHTML'', ''<span>'')]) ''$12.99'' (60, 20)
     (\<lambda>tag. []) (\<lambda>selector. []) (\<lambda>path. [])"

definition produce_banner :: element where
  "produce_banner = Element 6 6 ''div'' (map_of [(''outerHTML'', ''<div>'')])
     ''Shop Fresh Produce'' (600, 200) (\<lambda>tag. []) (\<lambda>selector. []) (\<lambda>path. [])"

section \<open>\<^verbatim>\<open>extract_products\<close>: the selector cascade\<close>

definition product_selectors :: "string list" where
  "product_selectors =
     [''[data-testid*='product']'', ''[data-testid*='Product']'', ''[data-product-id]'',
      ''[data-product-sku]'', ''[data-product-code]'',
      ''div[class*='ProductCard']'', ''div[class*='product-card']'',
      ''div[class*='ProductTile']'', ''div[class*='product-tile']'',
      ''div[class*='ProductItem']'', ''div[class*='product-item']'',
      ''article[class*='product']'', ''article[class*='Product']'', ''li[class*='product']'',
      ''div[class*='grid-item']'', ''div[class*='GridItem']'',
      ''a[href*='/product/']'', ''a[href*='/p/']'',
      ''[class*='card'][class*='product']'', ''[class*='tile'][class*='product']'',
      ''[itemtype*='Product']'', ''div.product-item'', ''.product-tile'']"

text \<open>Lines 880 to 888: the \<^verbatim>\<open>href\<close> of the match itself when it is a link, else of
  its first link; \<^verbatim>\<open>None\<close> when it has no link.\<close>

definition cascade_href :: "element \<Rightarrow> string option" where
  "cascade_href elem =
     (if tag_name elem = ''a''
      then Some (case get_attribute elem ''href'' of None \<Rightarrow> [] | Some h \<Rightarrow> h)
      else (case find_element_tag elem ''a'' of
              Inl err \<Rightarrow> None
            | Inr link_elem \<Rightarrow>
                Some (case get_attribute link_elem ''href'' of None \<Rightarrow> [] | Some h \<Rightarrow> h)))"

text \<open>
  The body of the loop over the matches of one selector (lines 875 to 903); the result
  says whether the match is appended. \<open>has_text\<close> is the local variable of that name
  of \<^verbatim>\<open>extract_products\<close>: \<^verbatim>\<open>None\<close> while nothing has been assigned to it.
  Line 901 evaluates \<^verbatim>\<open>has_img and (has_text or has_price or text)\<close>, so it reads
  \<open>has_text\<close> when \<open>has_img\<close> is true, and reading an unassigned local raises
  \<^verbatim>\<open>UnboundLocalError\<close>.
\<close>

definition cascade_check :: "bool option \<Rightarrow> nat set \<Rightarrow> element \<Rightarrow> py_error + bool" where
  "cascade_check has_text seen_element_ids elem =
     (if py_id elem \<in> seen_element_ids then Inr False
      else if (case cascade_href elem of None \<Rightarrow> False | Some href \<Rightarrow> href \<noteq> [] \<and> is_category_url href)
      then Inr False
      else (let text = strip (elem_text elem);
                has_img = (find_elements_tag elem ''img'' \<noteq> []);
                has_price = (price_search (elem_text elem) \<noteq> None)
            in if has_img
               then (case has_text of
                       None \<Rightarrow> Inl (UnboundLocalError ''has_text'')
                     | Some t \<Rightarrow> Inr (t \<or> has_price \<or> text \<noteq> []))
               else Inr False))"

text \<open>The loop over the matches of one selector. An exception in the body is caught and
  the loop goes on with the next match (lines 904 and 905).\<close>

fun filter_elements ::
  "bool option \<Rightarrow> element list \<Rightarrow> element list \<Rightarrow> nat set \<Rightarrow> element list \<times> nat set" where
  "filter_elements has_text [] filtered_elements seen_element_ids =
     (filtered_elements, seen_element_ids)"
| "filter_elements has_text (elem # elements) filtered_elements seen_element_ids =
     (case cascade_check has_text seen_element_ids elem of
        Inl err \<Rightarrow> filter_elements has_text elements filtered_elements seen_element_ids
      | Inr keep \<Rightarrow>
          if keep
          then filter_elements has_text elements (filtered_elements @ [elem])
                 (insert (py_id elem) seen_element_ids)
          else filter_elements has_text elements filtered_elements seen_element_ids)"

text \<open>The loop over the selectors (lines 865 to 911); \<open>page\<close> is
  \<^verbatim>\<open>driver.find_elements(By.CSS_SELECTOR, selector)\<close> on the loaded page.\<close>

fun cascade_loop ::
  "(string \<Rightarrow> element list) \<Rightarrow> bool option \<Rightarrow> string list \<Rightarrow> element list \<Rightarrow> nat set \<Rightarrow>
   element list \<times> nat set" where
  "cascade_loop page has_text [] product_elements seen_element_ids =
     (product_elements, seen_element_ids)"
| "cascade_loop page has_text (selector # selectors) product_elements seen_element_ids =
     (let elements = page selector
      in if elements \<noteq> []
         then (case filter_elements has_text elements [] seen_element_ids of
                 (filtered_elements, seen') \<Rightarrow>
                   cascade_loop page has_text selectors
                     (if filtered_elements \<noteq> [] then product_elements @ filtered_elements
                      else product_elements)
                     seen')
         else cascade_loop page has_text selectors product_elements seen_element_ids)"

text \<open>Lines 914 to 922: duplicates by \<^verbatim>\<open>id\<close> removed, order kept.\<close>

fun unique_by_id :: "element list \<Rightarrow> nat set \<Rightarrow> element list" where
  "unique_by_id [] seen = []"
| "unique_by_id (elem # elems) seen =
     (if py_id elem \<notin> seen then elem # unique_by_id elems (insert (py_id elem) seen)
      else unique_by_id elems seen)"

text \<open>
  Lines 860 to 923 of \<^verbatim>\<open>extract_products\<close>: the cascade and the removal of duplicates.
  The method assigns \<open>has_text\<close> for the first time at line 976, after the cascade, so
  the cascade runs with \<open>has_text\<close> unassigned.
\<close>

definition selector_cascade :: "(string \<Rightarrow> element list) \<Rightarrow> element list \<times> nat set" where
  "selector_cascade page =
     (case cascade_loop page None product_selectors [] {} of
        (product_elements, seen_element_ids) \<Rightarrow>
          (if product_elements \<noteq> [] then unique_by_id product_elements {} else product_elements,
           seen_element_ids))"

text \<open>The filter of the cascade in the words of the specification: the link of the
  match is not on the exclusion list, the match has an image, and it is not without
  both text and price.\<close>

definition spec_cascade_filter :: "element \<Rightarrow> bool" where
  "spec_cascade_filter elem \<longleftrightarrow>
     \<not> (case cascade_href elem of None \<Rightarrow> False | Some href \<Rightarrow> is_category_url href) \<and>
     find_elements_tag elem ''img'' \<noteq> [] \<and>
     \<not> (strip (elem_text elem) = [] \<and> price_search (elem_text elem) = None)"

text \<open>A page on which the first selector of the cascade matches the product tile.\<close>

definition milk_page :: "string \<Rightarrow> element list" where
  "milk_page selector = (if selector = ''[data-testid*='product']'' then [milk_tile] else [])"

section \<open>The browser as \<^verbatim>\<open>scroll_page\<close> uses it\<close>

text \<open>
  \<^verbatim>\<open>scroll_page\<close> talks to a live page that changes while it scrolls. The browser is
  a state \<open>'p\<close> and every call on the driver is a function of that state which gives a
  value or raises, and gives the next state; what the page does while the code sleeps is
  part of the next call. The scripts \<^verbatim>\<open>scroll_page\<close> executes are the constructors of
  \<open>script\<close>; a button is known by a number.
\<close>

datatype script =
    ReturnScrollHeight
  | ReturnPageYOffset
  | ScrollTo int
  | ScrollToBottom
  | SmoothScrollToBottom
  | ScrollIntoView nat
  | Click nat

type_synonym ('a, 'p) action = "'p \<Rightarrow> (py_error + 'a) \<times> 'p"

record 'p driver =
  execute_script :: "script \<Rightarrow> (int, 'p) action"
  count_elements :: "string \<Rightarrow> (nat, 'p) action"
  find_element :: "string \<Rightarrow> (nat, 'p) action"
  is_displayed :: "nat \<Rightarrow> (bool, 'p) action"

text \<open>Sequencing: a statement that returns normally, two statements in a row (an
  exception in the first skips the second), and \<^verbatim>\<open>try: body except: handler\<close>.\<close>

definition returns :: "'a \<Rightarrow> ('a, 'p) action" where
  "returns a = (\<lambda>p. (Inr a, p))"

definition then_do :: "('a, 'p) action \<Rightarrow> ('a \<Rightarrow> ('b, 'p) action) \<Rightarrow> ('b, 'p) action" where
  "then_do m f = (\<lambda>p. case m p of (Inl e, p') \<Rightarrow> (Inl e, p') | (Inr a, p') \<Rightarrow> f a p')"

definition try_except :: "('a, 'p) action \<Rightarrow> ('a, 'p) action \<Rightarrow> ('a, 'p) action" where
  "try_except body handler =
     (\<lambda>p. case body p of (Inl e, p') \<Rightarrow> handler p' | (Inr a, p') \<Rightarrow> (Inr a, p'))"

section \<open>\<^verbatim>\<open>scroll_page\<close>\<close>

definition load_more_selectors :: "string list" where
  "load_more_selectors =
     [''button[class*='load-more' i]'', ''button[class*='LoadMore' i]'',
      ''a[class*='load-more' i]'', ''button:contains('Load More')'',
      ''button:contains('Show More')'', ''button:contains('See More')'',
      ''*[aria-label*='load more' i]'', ''*[aria-label*='show more' i]'']"

text \<open>Lines 523 to 534: the first selector that finds a displayed button gets it
  scrolled into view and clicked, and ends the loop; an exception anywhere in the body
  moves on to the next selector.\<close>

fun click_load_more :: "'p driver \<Rightarrow> string list \<Rightarrow> (unit, 'p) action" where
  "click_load_more d [] p = (Inr (), p)"
| "click_load_more d (selector # selectors) p =
     (case then_do (find_element d selector) (\<lambda>load_btn.
             then_do (is_displayed d load_btn) (\<lambda>displayed.
               if displayed
               then then_do (execute_script d (ScrollIntoView load_btn)) (\<lambda>_.
                    then_do (execute_script d (Click load_btn)) (\<lambda>_. returns True))
               else returns False)) p of
        (Inl e, p') \<Rightarrow> click_load_more d selectors p'
      | (Inr clicked, p') \<Rightarrow> if clicked then (Inr (), p') else click_load_more d selectors p')"

text \<open>The variables of the loop other than \<open>scrolls\<close>.\<close>

record scroll_vars =
  last_height :: int
  last_product_count :: nat
  no_change_count :: nat
  no_product_change_count :: nat

text \<open>Lines 542 to 552: the images are counted; an exception leaves the variables as
  they are.\<close>

definition count_images :: "'p driver \<Rightarrow> scroll_vars \<Rightarrow> (scroll_vars, 'p) action" where
  "count_images d v =
     try_except
       (then_do (count_elements d ''img'') (\<lambda>current_images.
          returns (if current_images > last_product_count v
                   then v\<lparr>last_product_count := current_images, no_product_change_count := 0\<rparr>
                   else v\<lparr>no_product_change_count := no_product_change_count v + 1\<rparr>)))
       (returns v)"

text \<open>Lines 554 to 581: the result says whether the loop breaks, and gives the
  variables and \<open>new_height\<close>.\<close>

definition check_height ::
  "'p driver \<Rightarrow> scroll_vars \<Rightarrow> int \<Rightarrow> (bool \<times> scroll_vars \<times> int, 'p) action" where
  "check_height d v new_height =
     (if new_height = last_height v
      then (let v1 = v\<lparr>no_change_count := no_change_count v + 1\<rparr>
            in if no_change_count v1 \<ge> 5
               then then_do (execute_script d ScrollToBottom) (\<lambda>_.
                    then_do (execute_script d ReturnScrollHeight) (\<lambda>new_height.
                      if new_height = last_height v1
                      then then_do (execute_script d SmoothScrollToBottom) (\<lambda>_.
                           then_do (execute_script d ReturnScrollHeight) (\<lambda>new_height.
                             if new_height = last_height v1 \<and> no_product_change_count v1 \<ge> 5
                             then returns (True, v1, new_height)
                             else returns (False,
                                    v1\<lparr>no_change_count := 0, no_product_change_count := 0\<rparr>,
                                    new_height)))
                      else returns (False,
                             v1\<lparr>no_change_count := 0, no_product_change_count := 0\<rparr>,
                             new_height)))
               else returns (False, v1, new_height))
      else returns (False, v\<lparr>no_change_count := 0, no_product_change_count := 0\<rparr>, new_height))"

text \<open>The body of the \<^verbatim>\<open>while\<close> loop up to line 581.\<close>

definition scroll_step ::
  "'p driver \<Rightarrow> scroll_vars \<Rightarrow> (bool \<times> scroll_vars \<times> int, 'p) action" where
  "scroll_step d v =
     then_do (execute_script d ReturnPageYOffset) (\<lambda>current_scroll.
     then_do (execute_script d (ScrollTo (current_scroll + 800))) (\<lambda>_.
     then_do (try_except (click_load_more d load_more_selectors) (returns ())) (\<lambda>_.
     then_do (execute_script d ReturnScrollHeight) (\<lambda>new_height.
     then_do (count_images d v) (\<lambda>v'.
     check_height d v' new_height)))))"

text \<open>How \<^verbatim>\<open>scroll_page\<close> ends: the loop condition became false, the loop was left by
  \<^verbatim>\<open>break\<close>, or an exception left the method.\<close>

datatype scroll_exit = Exhausted | Converged | Raised py_error

text \<open>The outcome: how the method ended, the final value of \<open>scrolls\<close>, and the
  number of times the body of the loop was entered.\<close>

record scroll_result =
  ended :: scroll_exit
  scrolls_done :: int
  steps_entered :: nat

text \<open>The \<^verbatim>\<open>while scrolls < max_scrolls\<close> loop (lines 501 to 584). \<open>steps\<close> counts
  the entries into the body; the code has no such variable.\<close>

function scroll_loop ::
  "'p driver \<Rightarrow> int \<Rightarrow> int \<Rightarrow> nat \<Rightarrow> scroll_vars \<Rightarrow> 'p \<Rightarrow> scroll_result \<times> 'p" where
  "scroll_loop d max_scrolls scrolls steps v p =
     (if scrolls < max_scrolls
      then (case scroll_step d v p of
              (Inl e, p') \<Rightarrow> (\<lparr>ended = Raised e, scrolls_done = scrolls, steps_entered = Suc steps\<rparr>, p')
            | (Inr (stop, v', new_height), p') \<Rightarrow>
                if stop then (\<lparr>ended = Converged, scrolls_done = scrolls, steps_entered = Suc steps\<rparr>, p')
                else scroll_loop d max_scrolls (scrolls + 1) (Suc steps)
                       (v'\<lparr>last_height := new_height\<rparr>) p')
      else (\<lparr>ended = Exhausted, scrolls_done = scrolls, steps_entered = steps\<rparr>, p))"
  by pat_completeness auto
termination
  by (relation "measure (\<lambda>(d, max_scrolls, scrolls, steps, v, p). nat (max_scrolls - scrolls))") auto

text \<open>Lines 593 to 597: \<^verbatim>\<open>for i in range(5)\<close>, scrolling back in steps of 1000.\<close>

fun scroll_back :: "'p driver \<Rightarrow> int list \<Rightarrow> (unit, 'p) action" where
  "scroll_back d [] p = (Inr (), p)"
| "scroll_back d (i # is) p =
     then_do (execute_script d ReturnScrollHeight) (\<lambda>height.
       let scroll_pos = height - i * 1000
       in if scroll_pos > 0
          then then_do (execute_script d (ScrollTo scroll_pos)) (\<lambda>_. scroll_back d is)
          else scroll_back d is) p"

text \<open>
  \<^verbatim>\<open>scroll_page(scroll_pause_time, max_scrolls)\<close>. The pause only sets how long the
  code sleeps, so it is not an argument here. The scripts before the loop and after it
  are outside any \<^verbatim>\<open>try\<close>; the first count of the images is inside one.
\<close>

definition scroll_page :: "'p driver \<Rightarrow> int \<Rightarrow> 'p \<Rightarrow> scroll_result \<times> 'p" where
  "scroll_page d max_scrolls p =
     (case then_do (execute_script d ReturnScrollHeight) (\<lambda>last_height.
           then_do (execute_script d (ScrollTo 500)) (\<lambda>_.
           then_do (try_except (then_do (count_elements d ''img'') (\<lambda>n. returns ())) (returns ()))
             (\<lambda>_. returns last_height))) p of
        (Inl e, p') \<Rightarrow> (\<lparr>ended = Raised e, scrolls_done = 0, steps_entered = 0\<rparr>, p')
      | (Inr height, p') \<Rightarrow>
          (case scroll_loop d max_scrolls 0 0
                  \<lparr>last_height = height, last_product_count = 0, no_change_count = 0,
                   no_product_change_count = 0\<rparr> p' of
             (r, p'') \<Rightarrow>
               (case ended r of
                  Raised e \<Rightarrow> (r, p'')
                | _ \<Rightarrow>
                    (case then_do (execute_script d ScrollToBottom)
                            (\<lambda>_. scroll_back d [0, 1, 2, 3, 4]) p'' of
                       (Inl e, p''') \<Rightarrow> (r\<lparr>ended := Raised e\<rparr>, p''')
                     | (Inr u, p''') \<Rightarrow> (r, p''')))))"

text \<open>Three browsers to run \<^verbatim>\<open>scroll_page\<close> on; their state is the scroll offset.
  On the first the height of the document and the number of images never change and no
  button is found. On the second, in addition, every search for a button and every count
  of the images raises. On the third the script that reads the scroll offset raises.\<close>

definition plateau_script :: "script \<Rightarrow> (int, int) action" where
  "plateau_script s y =
     (case s of
        ReturnScrollHeight \<Rightarrow> (Inr 3000, y)
      | ReturnPageYOffset \<Rightarrow> (Inr y, y)
      | ScrollTo n \<Rightarrow> (Inr 0, min n 3000)
      | ScrollToBottom \<Rightarrow> (Inr 0, 3000)
      | SmoothScrollToBottom \<Rightarrow> (Inr 0, 3000)
      | ScrollIntoView b \<Rightarrow> (Inr 0, y)
      | Click b \<Rightarrow> (Inr 0, y))"

definition plateau_driver :: "int driver" where
  "plateau_driver =
     \<lparr>execute_script = plateau_script,
      count_elements = (\<lambda>selector y. (Inr 12, y)),
      find_element = (\<lambda>selector y. (Inl NoSuchElementException, y)),
      is_displayed = (\<lambda>b y. (Inr False, y))\<rparr>"

definition flaky_driver :: "int driver" where
  "flaky_driver =
     \<lparr>execute_script = plateau_script,
      count_elements = (\<lambda>selector y. (Inl WebDriverException, y)),
      find_element = (\<lambda>selector y. (Inl WebDriverException, y)),
      is_displayed = (\<lambda>b y. (Inl WebDriverException, y))\<rparr>"

definition broken_driver :: "int driver" where
  "broken_driver =
     \<lparr>execute_script =
        (\<lambda>s y. if s = ReturnPageYOffset then (Inl WebDriverException, y) else plateau_script s y),
      count_elements = (\<lambda>selector y. (Inr 12, y)),
      find_element = (\<lambda>selector y. (Inl NoSuchElementException, y)),
      is_displayed = (\<lambda>b y. (Inr False, y))\<rparr>"

text \<open>An action that raises in no state, and a driver whose scroll and height scripts
  (all scripts but the two that act on a button) raise in no state.\<close>

definition never_raises :: "('a, 'p) action \<Rightarrow> bool" where
  "never_raises m \<longleftrightarrow> (\<forall>p. \<exists>a. fst (m p) = Inr a)"

definition page_script :: "script \<Rightarrow> bool" where
  "page_script s = (case s of ScrollIntoView b \<Rightarrow> False | Click b \<Rightarrow> False | _ \<Rightarrow> True)"

definition page_scripts_succeed :: "'p driver \<Rightarrow> bool" where
  "page_scripts_succeed d \<longleftrightarrow> (\<forall>s. page_script s \<longrightarrow> never_raises (execute_script d s))"

text \<open>Lines 484 to 499, the part of \<^verbatim>\<open>scroll_page\<close> before the loop, and the
  variables the loop starts with.\<close>

definition scroll_start :: "'p driver \<Rightarrow> (int, 'p) action" where
  "scroll_start d =
     then_do (execute_script d ReturnScrollHeight) (\<lambda>last_height.
     then_do (execute_script d (ScrollTo 500)) (\<lambda>_.
     then_do (try_except (then_do (count_elements d ''img'') (\<lambda>n. returns ())) (returns ()))
       (\<lambda>_. returns last_height)))"

definition start_vars :: "int \<Rightarrow> scroll_vars" where
  "start_vars height =
     \<lparr>last_height = height, last_product_count = 0, no_change_count = 0,
      no_product_change_count = 0\<rparr>"

text \<open>The state of the loop at the start of a later step: \<open>loop_head d max_scrolls k\<close>
  runs \<open>k\<close> steps of the loop from the given state and gives the values of
  \<open>scrolls\<close>, of the step counter and of the variables, and the state of the
  browser, with which the next step starts; it gives \<^verbatim>\<open>None\<close> when the loop ends
  within these \<open>k\<close> steps.\<close>

fun loop_head ::
  "'p driver \<Rightarrow> int \<Rightarrow> nat \<Rightarrow> int \<Rightarrow> nat \<Rightarrow> scroll_vars \<Rightarrow> 'p \<Rightarrow>
   (int \<times> nat \<times> scroll_vars \<times> 'p) option" where
  "loop_head d max_scrolls 0 scrolls steps v p = Some (scrolls, steps, v, p)"
| "loop_head d max_scrolls (Suc k) scrolls steps v p =
     (if scrolls < max_scrolls
      then (case scroll_step d v p of
              (Inl e, p') \<Rightarrow> None
            | (Inr (stop, v', new_height), p') \<Rightarrow>
                if stop then None
                else loop_head d max_scrolls k (scrolls + 1) (Suc steps)
                       (v'\<lparr>last_height := new_height\<rparr>) p')
      else None)"


section \<open>Properties of the hyperlink strategies\<close>

lemma sublist_prepend: "sublist n u \<Longrightarrow> sublist n (p @ u)"
  by (metis sublist_order.order_trans suffix_imp_sublist suffixI)

lemma sublist_absolutize: "py_in n u \<Longrightarrow> py_in n (absolutize u)"
  using sublist_prepend [of n u base_url] sublist_prepend [of n u "base_url @ ''/''"]
  by (simp add: absolutize_def)

lemma site_href_heb: "site_href h = Some u \<Longrightarrow> py_in ''heb.com'' u"
  by (auto simp: site_href_def Let_def split: option.splits if_splits)

lemma link_strategy3_heb: "link_strategy3 links = Some u \<Longrightarrow> py_in ''heb.com'' u"
  by (induction links) (auto simp: sublist_absolutize split: option.splits if_splits)

lemma onclick_search_heb: "onclick_search s = Some u \<Longrightarrow> py_in ''heb.com'' u"
  by (induction s) (auto simp: onclick_at_def Let_def split: option.splits if_splits)

lemma or_else_cases: "or_else a b = Some u \<Longrightarrow> a = Some u \<or> b = Some u"
  by (auto simp: or_else_def split: option.splits if_splits)

lemma extract_hyperlink_heb: "extract_hyperlink e = Some u \<Longrightarrow> py_in ''heb.com'' u"
  unfolding extract_hyperlink_def
  by (auto dest!: or_else_cases simp: link_strategy1_def link_strategy2_def link_strategy4_def
      dest: site_href_heb link_strategy3_heb onclick_search_heb split: if_splits sum.splits)

lemma data_hyperlink_heb:
  "product_hyperlink (extract_product_data e i) = Some u \<Longrightarrow> py_in ''heb.com'' u"
  by (auto simp: extract_product_data_def empty_product_def dest: extract_hyperlink_heb
      split: if_splits)

text \<open>An extracted hyperlink is never the empty string, so the key the code computes by
  truthiness is the \<^verbatim>\<open>DedupKey\<close> of the specification.\<close>

lemma data_dedup_key: "dedup_key (extract_product_data e i) = unique_key (extract_product_data e i)"
proof (cases "product_hyperlink (extract_product_data e i)")
  case None
  then show ?thesis by (simp add: dedup_key_def unique_key_def)
next
  case (Some u)
  then have "py_in ''heb.com'' u" by (rule data_hyperlink_heb)
  then have "u \<noteq> []" by auto
  with Some show ?thesis by (simp add: dedup_key_def unique_key_def)
qed

section \<open>Properties of the acceptance loop\<close>

lemma extract_loop_append:
  "extract_loop idx es ps seen =
     (ps @ fst (extract_loop idx es [] seen), snd (extract_loop idx es [] seen))"
proof (induction es arbitrary: idx ps seen)
  case Nil
  show ?case by simp
next
  case (Cons e es)
  show ?case
    using Cons.IH [of "Suc idx" "ps @ [extract_product_data e idx]"]
      Cons.IH [of "Suc idx" "[extract_product_data e idx]"]
      Cons.IH [of "Suc idx" ps]
    by (simp add: Let_def)
qed

text \<open>What the loop appends: acceptable records built from candidates, with pairwise
  different keys, none of them seen before and all of them seen afterwards.\<close>

lemma extract_loop_new:
  "extract_loop idx es [] seen = (new, seen') \<Longrightarrow>
     distinct (map unique_key new) \<and>
     seen' = seen \<union> {k. Some k \<in> set (map unique_key new)} \<and>
     (\<forall>r\<in>set new. acceptable r \<and> fresh (unique_key r) seen \<and>
        (\<exists>e i. r = extract_product_data e i))"
proof (induction es arbitrary: idx seen new seen')
  case Nil
  then show ?case by simp
next
  case (Cons e es)
  let ?d = "extract_product_data e idx"
  show ?case
  proof (cases "acceptable ?d \<and> fresh (unique_key ?d) seen")
    case False
    with Cons.prems have "extract_loop (Suc idx) es [] seen = (new, seen')"
      by (auto simp: Let_def)
    from Cons.IH [OF this] show ?thesis .
  next
    case True
    then obtain k where k: "unique_key ?d = Some k" "k \<noteq> []" "k \<notin> seen"
      by (auto simp: fresh_def split: option.splits)
    let ?seen1 = "insert k seen"
    obtain new1 seen1' where r: "extract_loop (Suc idx) es [] ?seen1 = (new1, seen1')"
      by (cases "extract_loop (Suc idx) es [] ?seen1") auto
    have eq: "extract_loop idx (e # es) [] seen = (?d # new1, seen1')"
      using True k r extract_loop_append [of "Suc idx" es "[?d]" ?seen1]
      by (simp add: Let_def add_truthy_def)
    with Cons.prems have new: "new = ?d # new1" and seen': "seen' = seen1'" by auto
    note ih = Cons.IH [OF r]
    have notin: "Some k \<notin> set (map unique_key new1)"
    proof
      assume "Some k \<in> set (map unique_key new1)"
      then obtain r' where "r' \<in> set new1" "unique_key r' = Some k" by auto
      with ih have "fresh (Some k) ?seen1" by force
      then show False by (simp add: fresh_def)
    qed
    have fr: "\<forall>r\<in>set new1. fresh (unique_key r) seen"
      using ih by (auto simp: fresh_def split: option.splits)
    show ?thesis
      unfolding new seen'
      using ih k True notin fr by auto
  qed
qed

lemma extract_products_new:
  assumes "extract_products es mp seen = (new, seen')"
  shows "distinct (map unique_key new) \<and>
     seen' = seen \<union> {k. Some k \<in> set (map unique_key new)} \<and>
     (\<forall>r\<in>set new. acceptable r \<and> fresh (unique_key r) seen \<and>
        (\<exists>e i. r = extract_product_data e i))"
proof (cases "es = []")
  case True
  with assms show ?thesis by (simp add: extract_products_def)
next
  case False
  with assms have "extract_loop 0 (py_take mp es) [] seen = (new, seen')"
    by (simp add: extract_products_def)
  then show ?thesis by (rule extract_loop_new)
qed

lemma extract_products_dedup:
  assumes "extract_products es mp seen = (new, seen')"
  shows "distinct (map dedup_key new)"
    and "\<forall>r\<in>set new. \<exists>k. dedup_key r = Some k \<and> k \<notin> seen \<and> k \<in> seen'"
    and "seen \<subseteq> seen'"
proof -
  note n = extract_products_new [OF assms]
  have eq: "\<forall>r\<in>set new. dedup_key r = unique_key r"
    using n data_dedup_key by auto
  have m: "map dedup_key new = map unique_key new" using eq by simp
  from n have "distinct (map unique_key new)" by blast
  then show "distinct (map dedup_key new)" by (simp only: m)
  show "\<forall>r\<in>set new. \<exists>k. dedup_key r = Some k \<and> k \<notin> seen \<and> k \<in> seen'"
  proof
    fix r assume r: "r \<in> set new"
    with n have "fresh (unique_key r) seen" by blast
    then obtain k where k: "unique_key r = Some k" "k \<notin> seen"
      by (auto simp: fresh_def split: option.splits)
    moreover have "k \<in> seen'" using n r k by force
    ultimately show "\<exists>k. dedup_key r = Some k \<and> k \<notin> seen \<and> k \<in> seen'"
      using eq r by auto
  qed
  show "seen \<subseteq> seen'" using n by auto
qed

lemma extract_products_member:
  assumes "r \<in> set (fst (extract_products es mp seen))"
  shows "acceptable r \<and> (\<exists>e i. r = extract_product_data e i)"
  using extract_products_new [of es mp seen "fst (extract_products es mp seen)"
      "snd (extract_products es mp seen)"] assms
  by auto

lemma acceptable_essential:
  "acceptable r \<Longrightarrow> product_title r \<noteq> None \<or> product_price r \<noteq> None \<or> product_image r \<noteq> None"
  by (auto simp: acceptable_def Let_def)

lemma acceptable_not_category:
  "acceptable r \<Longrightarrow> product_hyperlink r = Some u \<Longrightarrow> \<not> is_category_url u"
  by (cases "u = []") (auto simp: acceptable_def Let_def is_category_url_def)

section \<open>Properties of the merge\<close>

lemma merge_loop_subseq: "subseq (merge_loop ps eu et) ps"
  by (induction ps arbitrary: eu et) (auto simp: Let_def)

lemma merge_loop_subset: "set (merge_loop ps eu et) \<subseteq> set ps"
  by (induction ps arbitrary: eu et) (auto simp: Let_def)

lemma existing_append: "existing f (ps @ qs) = existing f ps \<union> existing f qs"
  by (simp add: existing_def)

lemma existing_Cons: "existing f (p # ps) = add_truthy (f p) (existing f ps)"
  by (auto simp: existing_def add_truthy_def split: option.splits)

lemma fresh_mono: "\<not> fresh v s \<Longrightarrow> s \<subseteq> s' \<Longrightarrow> \<not> fresh v s'"
  by (auto simp: fresh_def split: option.splits)

lemma not_fresh_add: "\<not> fresh v (add_truthy v s)"
  by (auto simp: fresh_def add_truthy_def split: option.splits)

lemma add_truthy_mono: "s \<subseteq> add_truthy v s"
  by (auto simp: add_truthy_def split: option.splits)

lemma add_truthy_union: "add_truthy v s \<union> t = add_truthy v (s \<union> t)"
  by (auto simp: add_truthy_def split: option.splits)

text \<open>Running the acceptance loop again over the same candidates, with the keys the
  first run left in \<^verbatim>\<open>self.seen_urls\<close>, accepts nothing.\<close>

lemma extract_loop_again:
  "seen \<union> {k. Some k \<in> set (map unique_key (fst (extract_loop idx es [] seen)))} \<subseteq> seen' \<Longrightarrow>
   extract_loop idx es [] seen' = ([], seen')"
proof (induction es arbitrary: idx seen)
  case Nil
  show ?case by simp
next
  case (Cons e es)
  let ?d = "extract_product_data e idx"
  show ?case
  proof (cases "acceptable ?d \<and> fresh (unique_key ?d) seen")
    case True
    then obtain k where k: "unique_key ?d = Some k" "k \<noteq> []" "k \<notin> seen"
      by (auto simp: fresh_def split: option.splits)
    let ?new1 = "fst (extract_loop (Suc idx) es [] (insert k seen))"
    have eq: "fst (extract_loop idx (e # es) [] seen) = ?d # ?new1"
      using True k extract_loop_append [of "Suc idx" es "[?d]" "insert k seen"]
      by (simp add: Let_def add_truthy_def)
    from Cons.prems have sub: "insert k seen \<union> {k'. Some k' \<in> set (map unique_key ?new1)} \<subseteq> seen'"
      unfolding eq using k by auto
    then have "k \<in> seen'" by auto
    then have "\<not> fresh (unique_key ?d) seen'" using k by (simp add: fresh_def)
    then show ?thesis using Cons.IH [OF sub] by (simp add: Let_def)
  next
    case False
    then have eq: "extract_loop idx (e # es) [] seen = extract_loop (Suc idx) es [] seen"
      by (auto simp: Let_def)
    from Cons.prems have sub: "seen \<union> {k. Some k \<in> set (map unique_key (fst (extract_loop (Suc idx) es [] seen)))} \<subseteq> seen'"
      unfolding eq by simp
    then have "seen \<subseteq> seen'" by auto
    with False have "\<not> (acceptable ?d \<and> fresh (unique_key ?d) seen')"
      by (auto dest: fresh_mono)
    then show ?thesis using Cons.IH [OF sub] by (auto simp: Let_def)
  qed
qed

lemma extract_products_again:
  "extract_products es mp (snd (extract_products es mp seen)) =
     ([], snd (extract_products es mp seen))"
proof (cases "es = []")
  case True
  then show ?thesis by (simp add: extract_products_def)
next
  case False
  let ?r = "extract_loop 0 (py_take mp es) [] seen"
  have e: "?r = (fst ?r, snd ?r)" by simp
  from extract_loop_new [OF e]
  have "snd ?r = seen \<union> {k. Some k \<in> set (map unique_key (fst ?r))}" by blast
  then have "extract_loop 0 (py_take mp es) [] (snd ?r) = ([], snd ?r)"
    using extract_loop_again [of seen 0 "py_take mp es" "snd ?r"] by simp
  with False show ?thesis by (simp add: extract_products_def)
qed

text \<open>After a merge, every record of the merged list finds its hyperlink and its title
  among the existing ones, so merging the list again adds nothing.\<close>

lemma merge_loop_again:
  "eu \<union> existing product_hyperlink (merge_loop xs eu et) \<subseteq> eu' \<Longrightarrow>
   et \<union> existing product_title (merge_loop xs eu et) \<subseteq> et' \<Longrightarrow>
   merge_loop xs eu' et' = []"
proof (induction xs arbitrary: eu et)
  case Nil
  show ?case by simp
next
  case (Cons p ps)
  show ?case
  proof (cases "fresh (product_hyperlink p) eu \<or> fresh (product_title p) et")
    case True
    let ?eu1 = "add_truthy (product_hyperlink p) eu"
    let ?et1 = "add_truthy (product_title p) et"
    have m: "merge_loop (p # ps) eu et = p # merge_loop ps ?eu1 ?et1"
      using True by (simp add: Let_def)
    have u: "?eu1 \<union> existing product_hyperlink (merge_loop ps ?eu1 ?et1) \<subseteq> eu'"
      using Cons.prems(1) unfolding m existing_Cons
      by (auto simp: add_truthy_def split: option.splits if_splits)
    have t: "?et1 \<union> existing product_title (merge_loop ps ?eu1 ?et1) \<subseteq> et'"
      using Cons.prems(2) unfolding m existing_Cons
      by (auto simp: add_truthy_def split: option.splits if_splits)
    have "\<not> fresh (product_hyperlink p) eu'"
      using u by (auto simp: fresh_def add_truthy_def split: option.splits if_splits)
    moreover have "\<not> fresh (product_title p) et'"
      using t by (auto simp: fresh_def add_truthy_def split: option.splits if_splits)
    ultimately show ?thesis
      using Cons.IH [OF u t] by (simp add: Let_def)
  next
    case False
    then have m: "merge_loop (p # ps) eu et = merge_loop ps eu et"
      by (simp add: Let_def)
    have "eu \<subseteq> eu'" "et \<subseteq> et'" using Cons.prems by auto
    with False have "\<not> fresh (product_hyperlink p) eu'" "\<not> fresh (product_title p) et'"
      by (auto dest: fresh_mono)
    then show ?thesis
      using Cons.IH [of eu et] Cons.prems unfolding m by (simp add: Let_def)
  qed
qed

section \<open>Verified claims\<close>

text \<open>
  Claim C9. The merge of the second pass (lines 251 to 266 of
  \<^verbatim>\<open>scrape_category_page\<close>) is idempotent: merging the same list of second-pass records
  once more into the collection the first merge produced, with the sets of existing
  hyperlinks and titles rebuilt from that collection, leaves the collection unchanged.
  The same holds one level down: \<^verbatim>\<open>extract_products\<close> run again over the same
  candidates, with the keys the first run left in \<^verbatim>\<open>self.seen_urls\<close>, returns no
  record and leaves the keys as they are.
\<close>

theorem merge_pass2_idempotent:
  "merge_pass2 (merge_pass2 ps products_pass2) products_pass2 = merge_pass2 ps products_pass2 \<and>
   extract_products es mp (snd (extract_products es mp seen)) =
     ([], snd (extract_products es mp seen))"
proof
  let ?new = "merge_loop products_pass2 (existing product_hyperlink ps) (existing product_title ps)"
  have "merge_loop products_pass2 (existing product_hyperlink (ps @ ?new))
          (existing product_title (ps @ ?new)) = []"
    by (rule merge_loop_again [of "existing product_hyperlink ps" products_pass2
          "existing product_title ps"]) (simp_all add: existing_append)
  then show "merge_pass2 (merge_pass2 ps products_pass2) products_pass2 =
      merge_pass2 ps products_pass2"
    by (simp add: merge_pass2_def)
next
  show "extract_products es mp (snd (extract_products es mp seen)) =
     ([], snd (extract_products es mp seen))"
    by (rule extract_products_again)
qed

section \<open>Properties of a page visit\<close>

lemma scrape_unfold:
  "scrape_category_page self loaded es1 rescrolled es2 =
     (if \<not> loaded then ([], self)
      else if \<not> rescrolled
      then ([], \<lparr>products = products self @ fst (extract_products es1 None (seen_urls self)),
                 seen_urls = snd (extract_products es1 None (seen_urls self))\<rparr>)
      else (fst (extract_products es1 None (seen_urls self)),
            \<lparr>products =
               merge_pass2 (products self @ fst (extract_products es1 None (seen_urls self)))
                 (fst (extract_products es2 None (snd (extract_products es1 None (seen_urls self))))),
             seen_urls =
               snd (extract_products es2 None (snd (extract_products es1 None (seen_urls self))))\<rparr>))"
  by (simp add: scrape_category_page_def Let_def split: prod.splits)

text \<open>Every record a page visit returns or leaves in the accumulator was there before
  or is in the result of a call of \<^verbatim>\<open>extract_products\<close>.\<close>

lemma scrape_members:
  assumes "r \<in> set (fst (scrape_category_page self loaded es1 rescrolled es2)) \<union>
               set (products (snd (scrape_category_page self loaded es1 rescrolled es2)))"
  shows "r \<in> set (products self) \<or> (\<exists>es mp seen. r \<in> set (fst (extract_products es mp seen)))"
proof -
  let ?E1 = "extract_products es1 None (seen_urls self)"
  let ?E2 = "extract_products es2 None (snd ?E1)"
  from assms have "r \<in> set (products self) \<or> r \<in> set (fst ?E1) \<or> r \<in> set (fst ?E2)"
    using merge_loop_subset [of "fst ?E2"]
    by (auto simp: scrape_unfold merge_pass2_def split: if_splits)
  then show ?thesis by blast
qed

lemma merge_loop_distinct:
  "distinct (map f ps) \<Longrightarrow> distinct (map f (merge_loop ps eu et))"
proof (induction ps arbitrary: eu et)
  case Nil
  show ?case by simp
next
  case (Cons p ps)
  have "f p \<notin> f ` set (merge_loop ps eu' et')" for eu' et'
    using Cons.prems merge_loop_subset [of ps eu' et'] by auto
  with Cons show ?case by (simp add: Let_def)
qed

text \<open>Appending records whose keys are pairwise different and were not seen keeps the
  accumulator's state.\<close>

lemma keys_tracked_extend:
  assumes "keys_tracked \<lparr>products = ps, seen_urls = s\<rparr>"
    and "distinct (map dedup_key new)"
    and "\<forall>r\<in>set new. \<exists>k. dedup_key r = Some k \<and> k \<notin> s \<and> k \<in> s'"
    and "s \<subseteq> s'"
  shows "keys_tracked \<lparr>products = ps @ new, seen_urls = s'\<rparr>"
proof -
  have "dedup_key ` set ps \<inter> dedup_key ` set new = {}"
  proof (rule ccontr)
    assume "dedup_key ` set ps \<inter> dedup_key ` set new \<noteq> {}"
    then obtain p r where pr: "p \<in> set ps" "r \<in> set new" "dedup_key p = dedup_key r" by auto
    from assms(1) pr(1) obtain k where "dedup_key p = Some k" "k \<in> s"
      by (auto simp: keys_tracked_def)
    moreover from assms(3) pr(2) obtain k' where "dedup_key r = Some k'" "k' \<notin> s" by auto
    ultimately show False using pr(3) by simp
  qed
  moreover have "\<forall>p\<in>set ps. \<exists>k. dedup_key p = Some k \<and> k \<in> s'"
  proof
    fix p assume "p \<in> set ps"
    with assms(1) obtain k where "dedup_key p = Some k" "k \<in> s"
      by (auto simp: keys_tracked_def)
    with assms(4) show "\<exists>k. dedup_key p = Some k \<and> k \<in> s'" by auto
  qed
  ultimately show ?thesis
    using assms by (auto simp: keys_tracked_def)
qed

lemma keys_tracked_pass:
  assumes "keys_tracked \<lparr>products = ps, seen_urls = s\<rparr>"
    and "set new \<subseteq> set (fst (extract_products es mp s))"
    and "distinct (map dedup_key (fst (extract_products es mp s))) \<Longrightarrow> distinct (map dedup_key new)"
  shows "keys_tracked \<lparr>products = ps @ new, seen_urls = snd (extract_products es mp s)\<rparr>"
proof -
  have e: "extract_products es mp s = (fst (extract_products es mp s), snd (extract_products es mp s))"
    by simp
  note d = extract_products_dedup [OF e]
  show ?thesis
    by (rule keys_tracked_extend [OF assms(1)]) (use d assms(2,3) in auto)
qed

lemma scrape_keeps_keys_tracked:
  assumes "keys_tracked self"
  shows "keys_tracked (snd (scrape_category_page self loaded es1 rescrolled es2))"
proof -
  let ?E1 = "extract_products es1 None (seen_urls self)"
  let ?E2 = "extract_products es2 None (snd ?E1)"
  let ?new = "merge_loop (fst ?E2) (existing product_hyperlink (products self @ fst ?E1))
                (existing product_title (products self @ fst ?E1))"
  have s: "keys_tracked \<lparr>products = products self, seen_urls = seen_urls self\<rparr>"
    using assms by (simp add: keys_tracked_def)
  have k1: "keys_tracked \<lparr>products = products self @ fst ?E1, seen_urls = snd ?E1\<rparr>"
    by (rule keys_tracked_pass [OF s]) simp_all
  have k2: "keys_tracked \<lparr>products = (products self @ fst ?E1) @ ?new, seen_urls = snd ?E2\<rparr>"
    by (rule keys_tracked_pass [OF k1]) (simp_all add: merge_loop_subset merge_loop_distinct)
  show ?thesis
    using assms k1 k2 by (simp add: scrape_unfold merge_pass2_def)
qed

text \<open>
  Claim C7. Every record accepted into a collection has a title, a price or an image:
  this holds for each record in the list \<^verbatim>\<open>extract_products\<close> returns, in the list
  \<^verbatim>\<open>scrape_category_page\<close> returns and in \<^verbatim>\<open>self.products\<close> after the call, when it
  held for the records \<^verbatim>\<open>self.products\<close> had before the call. So a record with four
  \<^verbatim>\<open>None\<close> fields, or with a hyperlink only, is in none of these lists.
\<close>

theorem accepted_record_has_evidence:
  assumes "\<forall>p\<in>set (products self).
             product_title p \<noteq> None \<or> product_price p \<noteq> None \<or> product_image p \<noteq> None"
    and "r \<in> set (fst (extract_products es mp seen)) \<union>
             set (fst (scrape_category_page self loaded es1 rescrolled es2)) \<union>
             set (products (snd (scrape_category_page self loaded es1 rescrolled es2)))"
  shows "product_title r \<noteq> None \<or> product_price r \<noteq> None \<or> product_image r \<noteq> None"
proof -
  from assms(2) scrape_members [of r self loaded es1 rescrolled es2]
  have "r \<in> set (products self) \<or> (\<exists>es mp seen. r \<in> set (fst (extract_products es mp seen)))"
    by blast
  then show ?thesis
  proof
    assume "r \<in> set (products self)"
    with assms(1) show ?thesis by blast
  next
    assume "\<exists>es mp seen. r \<in> set (fst (extract_products es mp seen))"
    then have "acceptable r" using extract_products_member by blast
    then show ?thesis by (rule acceptable_essential)
  qed
qed

theorem accepted_record_has_evidence_witness:
  "products init_scraper = [] \<and>
   milk \<in> set (fst (extract_products [milk_tile] None {})) \<union>
       set (fst (scrape_category_page init_scraper True [milk_tile] True [])) \<union>
       set (products (snd (scrape_category_page init_scraper True [milk_tile] True []))) \<and>
   \<not> (product_title milk = None \<and> product_price milk = None \<and> product_image milk = None)"
proof -
  have h0: "products init_scraper = []"
    by (simp add: init_scraper_def)
  then have h1: "\<forall>p\<in>set (products init_scraper).
       product_title p \<noteq> None \<or> product_price p \<noteq> None \<or> product_image p \<noteq> None"
    by simp
  have "fst (extract_products [milk_tile] None {}) = [milk]"
    by code_simp
  then have h2: "milk \<in> set (fst (extract_products [milk_tile] None {})) \<union>
       set (fst (scrape_category_page init_scraper True [milk_tile] True [])) \<union>
       set (products (snd (scrape_category_page init_scraper True [milk_tile] True [])))"
    by simp
  from accepted_record_has_evidence [OF h1 h2] h0 h2 show ?thesis by blast
qed

text \<open>
  Claim C2. In \<^verbatim>\<open>self.products\<close> after both extraction passes of
  \<^verbatim>\<open>scrape_category_page\<close>, two records at different positions have different
  \<^verbatim>\<open>DedupKey\<close>s (the hyperlink if it is not \<^verbatim>\<open>None\<close>, else the title). The call starts
  from a scraper whose keys are tracked, which is the state of a new scraper and of a
  scraper after any number of page visits; the call keeps that state.
\<close>

theorem accumulated_keys_distinct:
  assumes "keys_tracked self"
    and "final = products (snd (scrape_category_page self loaded es1 rescrolled es2))"
    and "i < j" and "j < length final"
  shows "dedup_key (final ! i) \<noteq> dedup_key (final ! j) \<and>
         keys_tracked (snd (scrape_category_page self loaded es1 rescrolled es2))"
proof -
  have k: "keys_tracked (snd (scrape_category_page self loaded es1 rescrolled es2))"
    using assms(1) by (rule scrape_keeps_keys_tracked)
  then have "distinct (map dedup_key final)"
    using assms(2) by (simp add: keys_tracked_def)
  then have "map dedup_key final ! i \<noteq> map dedup_key final ! j"
    using assms(3,4) by (simp add: distinct_conv_nth)
  then show ?thesis using assms(3,4) k by simp
qed

theorem accumulated_keys_distinct_witness:
  "keys_tracked init_scraper \<and>
   products (snd (scrape_category_page init_scraper True [milk_tile] True [offsite_link])) =
     [milk, offsite_deal] \<and>
   (0::nat) < 1 \<and> (1::nat) < length [milk, offsite_deal] \<and>
   dedup_key ([milk, offsite_deal] ! 0) \<noteq> dedup_key ([milk, offsite_deal] ! 1) \<and>
   keys_tracked (snd (scrape_category_page init_scraper True [milk_tile] True [offsite_link]))"
proof -
  have h1: "keys_tracked init_scraper"
    by (simp add: keys_tracked_def init_scraper_def)
  have h2: "products (snd (scrape_category_page init_scraper True [milk_tile] True [offsite_link])) =
      [milk, offsite_deal]"
    by code_simp
  have h3: "(0::nat) < 1" and h4: "(1::nat) < length [milk, offsite_deal]"
    by simp_all
  note c = accumulated_keys_distinct [OF h1 h2 [symmetric] h3 h4]
  from h1 h2 h3 h4 c show ?thesis by blast
qed

text \<open>
  Claim C3 as stated fails: the strategies test the hyperlink with
  \<^verbatim>\<open>'heb.com' in href\<close>, a test on substrings. A link to another host whose path holds
  \<^verbatim>\<open>heb.com\<close> passes it, and its record is accepted with that hyperlink.
\<close>

theorem offsite_hyperlink_accepted:
  "offsite_deal \<in> set (fst (extract_products [offsite_link] None {})) \<and>
   product_hyperlink offsite_deal = Some ''http://example.org/heb.com/deal'' \<and>
   \<not> on_site_domain ''http://example.org/heb.com/deal''"
proof -
  have "fst (extract_products [offsite_link] None {}) = [offsite_deal]"
    by code_simp
  moreover have "\<not> on_site_domain ''http://example.org/heb.com/deal''"
    by code_simp
  ultimately show ?thesis by (simp add: offsite_deal_def)
qed

text \<open>
  Claim C3 as amended. For every record accepted into a collection (the list
  \<^verbatim>\<open>extract_products\<close> returns, the list \<^verbatim>\<open>scrape_category_page\<close> returns,
  \<^verbatim>\<open>self.products\<close> after the call), a hyperlink that is not \<^verbatim>\<open>None\<close> contains
  \<^verbatim>\<open>heb.com\<close> and contains none of \<^verbatim>\<open>/category/\<close>, \<^verbatim>\<open>/department/\<close> and
  \<^verbatim>\<open>/shop/\<close>, when this held for the records \<^verbatim>\<open>self.products\<close> had before the call.
\<close>

theorem accepted_hyperlink_scope:
  assumes "\<forall>p\<in>set (products self). \<forall>v. product_hyperlink p = Some v \<longrightarrow>
             py_in ''heb.com'' v \<and> \<not> is_category_url v"
    and "r \<in> set (fst (extract_products es mp seen)) \<union>
             set (fst (scrape_category_page self loaded es1 rescrolled es2)) \<union>
             set (products (snd (scrape_category_page self loaded es1 rescrolled es2)))"
    and "product_hyperlink r = Some u"
  shows "py_in ''heb.com'' u \<and> \<not> py_in ''/category/'' u \<and> \<not> py_in ''/department/'' u \<and>
         \<not> py_in ''/shop/'' u"
proof -
  from assms(2) scrape_members [of r self loaded es1 rescrolled es2]
  have "r \<in> set (products self) \<or> (\<exists>es mp seen. r \<in> set (fst (extract_products es mp seen)))"
    by blast
  then have "py_in ''heb.com'' u \<and> \<not> is_category_url u"
  proof
    assume "r \<in> set (products self)"
    with assms(1,3) show ?thesis by blast
  next
    assume "\<exists>es mp seen. r \<in> set (fst (extract_products es mp seen))"
    then have a: "acceptable r" and "\<exists>e i. r = extract_product_data e i"
      using extract_products_member by blast+
    then obtain e i where "r = extract_product_data e i" by blast
    with assms(3) have "py_in ''heb.com'' u" using data_hyperlink_heb by blast
    moreover from a assms(3) have "\<not> is_category_url u" by (rule acceptable_not_category)
    ultimately show ?thesis by simp
  qed
  then show ?thesis by (simp add: is_category_url_def)
qed

theorem accepted_hyperlink_scope_witness:
  "products init_scraper = [] \<and>
   milk \<in> set (fst (extract_products [milk_tile] None {})) \<union>
       set (fst (scrape_category_page init_scraper True [milk_tile] True [])) \<union>
       set (products (snd (scrape_category_page init_scraper True [milk_tile] True []))) \<and>
   product_hyperlink milk = Some ''https://www.heb.com/product/milk'' \<and>
   py_in ''heb.com'' ''https://www.heb.com/product/milk'' \<and>
   \<not> py_in ''/category/'' ''https://www.heb.com/product/milk'' \<and>
   \<not> py_in ''/department/'' ''https://www.heb.com/product/milk'' \<and>
   \<not> py_in ''/shop/'' ''https://www.heb.com/product/milk''"
proof -
  have h0: "products init_scraper = []"
    by (simp add: init_scraper_def)
  then have h1: "\<forall>p\<in>set (products init_scraper). \<forall>v. product_hyperlink p = Some v \<longrightarrow>
       py_in ''heb.com'' v \<and> \<not> is_category_url v"
    by simp
  have "fst (extract_products [milk_tile] None {}) = [milk]"
    by code_simp
  then have h2: "milk \<in> set (fst (extract_products [milk_tile] None {})) \<union>
       set (fst (scrape_category_page init_scraper True [milk_tile] True [])) \<union>
       set (products (snd (scrape_category_page init_scraper True [milk_tile] True [])))"
    by simp
  have h3: "product_hyperlink milk = Some ''https://www.heb.com/product/milk''"
    by (simp add: milk_def)
  from accepted_hyperlink_scope [OF h1 h2 h3] h0 h2 h3 show ?thesis by blast
qed




section \<open>Properties of the title and price strategies\<close>

lemma price_1299:
  "strip ''$12.99'' = ''$12.99''"
  "pure_price ''$12.99''"
  "price_prefix ''$12.99''"
  "price_search ''$12.99'' = Some ''$12.99''"
  "text_lines ''$12.99'' = [''$12.99'']"
  "strip [] = []"
  by code_simp+

lemma first_title_price_only:
  "\<forall>d\<in>set ds. elem_text d = ''$12.99'' \<or> elem_text d = [] \<Longrightarrow> first_title ds = None"
  by (induction ds) (auto simp: Let_def price_1299 title_valid_def)

lemma title_strategy1_price_only:
  "\<forall>sel. \<forall>d\<in>set (find_elements_css e sel). elem_text d = ''$12.99'' \<or> elem_text d = [] \<Longrightarrow>
   title_strategy1 e sels = None"
  by (induction sels) (simp_all add: first_title_price_only)

lemma first_price_price_only:
  "\<forall>d\<in>set ds. elem_text d = ''$12.99'' \<or> elem_text d = [] \<Longrightarrow>
   first_price ds = None \<or> first_price ds = Some ''$12.99''"
  by (induction ds) (auto simp: Let_def price_1299 simp del: price_search.simps)

lemma price_strategy1_price_only:
  "\<forall>sel. \<forall>d\<in>set (find_elements_css e sel). elem_text d = ''$12.99'' \<or> elem_text d = [] \<Longrightarrow>
   price_strategy1 e sels = None \<or> price_strategy1 e sels = Some ''$12.99''"
proof (induction sels)
  case Nil
  show ?case by simp
next
  case (Cons sel sels)
  from Cons.prems have "first_price (find_elements_css e sel) = None \<or>
      first_price (find_elements_css e sel) = Some ''$12.99''"
    by (intro first_price_price_only) blast
  with Cons show ?case by auto
qed

text \<open>
  Claim C4. A candidate whose rendered text is \<^verbatim>\<open>$12.99\<close>, whose descendants render
  that text or none, and which has no \<^verbatim>\<open>aria-label\<close> and no \<^verbatim>\<open>title\<close> attribute, gets
  no title and the price \<^verbatim>\<open>$12.99\<close>. (For the first three candidates the code reads
  \<^verbatim>\<open>outerHTML\<close> first, which every element of a page has.)
\<close>

theorem price_only_candidate:
  assumes "elem_text e = ''$12.99''"
    and "\<forall>sel. \<forall>d\<in>set (find_elements_css e sel). elem_text d = ''$12.99'' \<or> elem_text d = []"
    and "get_attribute e ''aria-label'' = None"
    and "get_attribute e ''title'' = None"
    and "3 \<le> index \<or> get_attribute e ''outerHTML'' \<noteq> None"
  shows "product_title (extract_product_data e index) = None \<and>
         product_price (extract_product_data e index) = Some ''$12.99''"
proof -
  have t1: "title_strategy1 e title_selectors = None"
    using assms(2) by (rule title_strategy1_price_only)
  have t2: "title_strategy2 e = None"
    using assms(1) by (simp add: title_strategy2_def price_1299 line_valid_def)
  have t2b: "title_strategy2b e = None"
    using assms(1) by (simp add: title_strategy2b_def price_1299)
  have t34: "title_from_attribute e ''aria-label'' = None" "title_from_attribute e ''title'' = None"
    using assms(3,4) by (simp_all add: title_from_attribute_def)
  have title: "extract_title e = None"
    by (simp add: extract_title_def t1 t2 t2b t34 or_else_def)
  have p1: "price_strategy1 e price_selectors = None \<or>
            price_strategy1 e price_selectors = Some ''$12.99''"
    using assms(2) by (rule price_strategy1_price_only)
  have p2: "price_strategy2 e = Some ''$12.99''"
    using assms(1)
    by (simp add: price_strategy2_def price_patterns_def price_1299 del: price_search.simps)
  have price: "extract_price e = Some ''$12.99''"
    using p1 by (auto simp: extract_price_def p2 or_else_def)
  from assms(5) title price show ?thesis
    by (auto simp: extract_product_data_def)
qed

theorem price_only_candidate_witness:
  "elem_text price_tag = ''$12.99'' \<and>
   find_elements_css price_tag = (\<lambda>selector. []) \<and>
   get_attribute price_tag ''aria-label'' = None \<and>
   get_attribute price_tag ''title'' = None \<and>
   get_attribute price_tag ''outerHTML'' = Some ''<span>'' \<and>
   product_title (extract_product_data price_tag 0) = None \<and>
   product_price (extract_product_data price_tag 0) = Some ''$12.99''"
proof -
  have h1: "elem_text price_tag = ''$12.99''"
    and c: "find_elements_css price_tag = (\<lambda>selector. [])"
    and h3: "get_attribute price_tag ''aria-label'' = None"
    and h4: "get_attribute price_tag ''title'' = None"
    and o: "get_attribute price_tag ''outerHTML'' = Some ''<span>''"
    by (simp_all add: price_tag_def)
  from c have h2: "\<forall>sel. \<forall>d\<in>set (find_elements_css price_tag sel).
      elem_text d = ''$12.99'' \<or> elem_text d = []"
    by simp
  from o have h5: "3 \<le> (0::nat) \<or> get_attribute price_tag ''outerHTML'' \<noteq> None"
    by simp
  from price_only_candidate [OF h1 h2 h3 h4 h5] h1 c h3 h4 o show ?thesis by blast
qed

lemma first_line_find: "first_line ls = map_option (take 150) (List.find line_valid ls)"
  by (induction ls) simp_all

lemma or_else_length:
  "or_else a b = Some t \<Longrightarrow> (\<And>x. a = Some x \<Longrightarrow> length x \<le> n) \<Longrightarrow>
   (\<And>x. b = Some x \<Longrightarrow> length x \<le> n) \<Longrightarrow> length t \<le> n"
  by (auto dest!: or_else_cases)

lemma first_title_length: "first_title ds = Some t \<Longrightarrow> length t \<le> 150"
  by (induction ds) (auto simp: Let_def split: if_splits)

lemma title_strategy1_length: "title_strategy1 e sels = Some t \<Longrightarrow> length t \<le> 150"
  by (induction sels) (auto dest: first_title_length split: option.splits)

lemma first_line_length: "first_line ls = Some t \<Longrightarrow> length t \<le> 150"
  by (induction ls) (auto split: if_splits)

lemma extract_title_length:
  assumes "extract_title e = Some t"
  shows "length t \<le> 150"
proof -
  have s1: "\<And>x. title_strategy1 e title_selectors = Some x \<Longrightarrow> length x \<le> 150"
    by (rule title_strategy1_length)
  have s2: "\<And>x. title_strategy2 e = Some x \<Longrightarrow> length x \<le> 150"
    by (auto simp: title_strategy2_def Let_def dest: first_line_length split: if_splits)
  have s2b: "\<And>x. title_strategy2b e = Some x \<Longrightarrow> length x \<le> 150"
    by (auto simp: title_strategy2b_def Let_def split: if_splits)
  have s34: "\<And>x n. title_from_attribute e n = Some x \<Longrightarrow> length x \<le> 150"
    by (auto simp: title_from_attribute_def split: option.splits if_splits)
  from assms show ?thesis
    unfolding extract_title_def
    by (auto dest!: or_else_cases dest: s1 s2 s2b s34)
qed

text \<open>
  Claim C6 as stated fails: the test of strategy 2 is not the test of strategy 1. It
  looks for \<^verbatim>\<open>view details\<close> and \<^verbatim>\<open>shop now\<close> where strategy 1 looks for \<^verbatim>\<open>view\<close>
  and \<^verbatim>\<open>shop\<close>, adds \<^verbatim>\<open>learn more\<close>, drops \<^verbatim>\<open>category\<close>, and rejects a line that
  starts with a price. The line \<^verbatim>\<open>Shop Fresh Produce\<close> fails the test of strategy 1 and
  strategy 2 accepts it.
\<close>

theorem strategy2_accepts_shop_line:
  "title_strategy2 produce_banner = Some ''Shop Fresh Produce'' \<and>
   \<not> title_valid ''Shop Fresh Produce''"
  by code_simp

text \<open>
  Claim C6 as amended. When strategy 2 sets a title, it is the first 150 characters of
  the first line of the candidate's text (split at newlines, lines stripped, empty lines
  dropped) that has 5 to 200 characters, does not start with a price, does not contain
  \<^verbatim>\<open>price\<close>, \<^verbatim>\<open>add to cart\<close>, \<^verbatim>\<open>buy now\<close>, \<^verbatim>\<open>view details\<close>, \<^verbatim>\<open>shop now\<close> or
  \<^verbatim>\<open>learn more\<close> in lower case, and has at least two words; when there is such a line
  strategy 2 sets a title. Every title of an extracted record, from whichever strategy,
  has at most 150 characters.
\<close>

theorem strategy2_first_valid_line:
  fixes e :: element
  defines "ls \<equiv> text_lines (strip (elem_text e))"
  shows "(title_strategy2 e = Some t \<longleftrightarrow>
           (\<exists>i<length ls. t = take 150 (ls ! i) \<and>
              5 \<le> length (ls ! i) \<and> length (ls ! i) \<le> 200 \<and>
              \<not> price_prefix (ls ! i) \<and>
              \<not> py_in ''price'' (lower (ls ! i)) \<and>
              \<not> py_in ''add to cart'' (lower (ls ! i)) \<and>
              \<not> py_in ''buy now'' (lower (ls ! i)) \<and>
              \<not> py_in ''view details'' (lower (ls ! i)) \<and>
              \<not> py_in ''shop now'' (lower (ls ! i)) \<and>
              \<not> py_in ''learn more'' (lower (ls ! i)) \<and>
              2 \<le> length (split_ws [] (ls ! i)) \<and>
              (\<forall>j<i. \<not> line_valid (ls ! j)))) \<and>
         (product_title (extract_product_data e index) = Some t' \<longrightarrow> length t' \<le> 150)"
proof
  have nil: "strip (elem_text e) = [] \<Longrightarrow> ls = []"
    unfolding ls_def by (simp add: text_lines_def) code_simp
  have "title_strategy2 e = map_option (take 150) (List.find line_valid ls)"
  proof (cases "strip (elem_text e) = []")
    case True
    with nil show ?thesis by (simp add: title_strategy2_def)
  next
    case False
    then show ?thesis by (simp add: title_strategy2_def first_line_find ls_def)
  qed
  then have "title_strategy2 e = Some t \<longleftrightarrow>
      (\<exists>l. List.find line_valid ls = Some l \<and> t = take 150 l)"
    by auto
  also have "\<dots> \<longleftrightarrow> (\<exists>i<length ls. t = take 150 (ls ! i) \<and> line_valid (ls ! i) \<and>
                        (\<forall>j<i. \<not> line_valid (ls ! j)))"
    by (auto simp: find_Some_iff)
  finally show "title_strategy2 e = Some t \<longleftrightarrow>
           (\<exists>i<length ls. t = take 150 (ls ! i) \<and>
              5 \<le> length (ls ! i) \<and> length (ls ! i) \<le> 200 \<and>
              \<not> price_prefix (ls ! i) \<and>
              \<not> py_in ''price'' (lower (ls ! i)) \<and>
              \<not> py_in ''add to cart'' (lower (ls ! i)) \<and>
              \<not> py_in ''buy now'' (lower (ls ! i)) \<and>
              \<not> py_in ''view details'' (lower (ls ! i)) \<and>
              \<not> py_in ''shop now'' (lower (ls ! i)) \<and>
              \<not> py_in ''learn more'' (lower (ls ! i)) \<and>
              2 \<le> length (split_ws [] (ls ! i)) \<and>
              (\<forall>j<i. \<not> line_valid (ls ! j)))"
    unfolding line_valid_def [of "ls ! _"] by (simp add: conj_ac)
next
  show "product_title (extract_product_data e index) = Some t' \<longrightarrow> length t' \<le> 150"
    by (auto simp: extract_product_data_def empty_product_def dest: extract_title_length
        split: if_splits)
qed

theorem strategy2_first_valid_line_witness:
  "title_strategy2 milk_tile = Some ''Whole Milk 1 gal'' \<and>
   product_title (extract_product_data milk_tile 0) = Some ''Whole Milk 1 gal'' \<and>
   length ''Whole Milk 1 gal'' \<le> 150 \<and>
   (\<exists>i<length (text_lines (strip (elem_text milk_tile))).
      ''Whole Milk 1 gal'' = take 150 (text_lines (strip (elem_text milk_tile)) ! i) \<and>
      \<not> price_prefix (text_lines (strip (elem_text milk_tile)) ! i) \<and>
      2 \<le> length (split_ws [] (text_lines (strip (elem_text milk_tile)) ! i)))"
proof -
  have h1: "title_strategy2 milk_tile = Some ''Whole Milk 1 gal''"
    by code_simp
  have h2: "product_title (extract_product_data milk_tile 0) = Some ''Whole Milk 1 gal''"
    by code_simp
  note c = strategy2_first_valid_line [of milk_tile "''Whole Milk 1 gal''" 0 "''Whole Milk 1 gal''"]
  from c h2 have l: "length ''Whole Milk 1 gal'' \<le> 150" by blast
  from c h1 have "\<exists>i<length (text_lines (strip (elem_text milk_tile))).
      ''Whole Milk 1 gal'' = take 150 (text_lines (strip (elem_text milk_tile)) ! i) \<and>
      \<not> price_prefix (text_lines (strip (elem_text milk_tile)) ! i) \<and>
      2 \<le> length (split_ws [] (text_lines (strip (elem_text milk_tile)) ! i))"
    by blast
  with h1 h2 l show ?thesis by blast
qed

section \<open>The selector cascade keeps nothing\<close>

lemma cascade_check_unbound: "cascade_check None seen elem \<noteq> Inr True"
  by (simp add: cascade_check_def Let_def)

lemma filter_elements_unbound:
  "filter_elements None elements filtered seen = (filtered, seen)"
proof (induction elements)
  case Nil
  show ?case by simp
next
  case (Cons elem elements)
  with cascade_check_unbound [of seen elem] show ?case
    by (cases "cascade_check None seen elem") auto
qed

lemma cascade_loop_unbound:
  "cascade_loop page None selectors product_elements seen = (product_elements, seen)"
  by (induction selectors) (simp_all add: filter_elements_unbound Let_def)

text \<open>For every page, the cascade of lines 860 to 923 ends with an empty list: a match
  without an image fails the test of line 901, and a match with an image raises
  \<^verbatim>\<open>UnboundLocalError\<close> there, which line 904 swallows.\<close>

lemma selector_cascade_empty: "selector_cascade page = ([], {})"
  by (simp add: selector_cascade_def cascade_loop_unbound)

text \<open>
  Claim C1: for every selector of the cascade the matches are filtered (no link to a
  category, department or shop path; an image; text or a price) and the filtered matches
  of all selectors are accumulated. The code does not do this. On a page where the first
  selector matches a product tile with an image, a product link, a title and a price,
  the tile passes the filter of the specification and the cascade of the code
  accumulates nothing.
\<close>

theorem cascade_drops_product_tile:
  "milk_page ''[data-testid*='product']'' = [milk_tile] \<and>
   spec_cascade_filter milk_tile \<and>
   cascade_check None {} milk_tile = Inl (UnboundLocalError ''has_text'') \<and>
   fst (selector_cascade milk_page) = []"
proof -
  have "milk_page ''[data-testid*='product']'' = [milk_tile]"
    by (simp add: milk_page_def)
  moreover have "spec_cascade_filter milk_tile"
    by code_simp
  moreover have "cascade_check None {} milk_tile = Inl (UnboundLocalError ''has_text'')"
    by code_simp
  moreover have "fst (selector_cascade milk_page) = []"
    by code_simp
  ultimately show ?thesis by blast
qed

section \<open>Properties of \<^verbatim>\<open>scroll_page\<close>\<close>

lemma scroll_loop_steps:
  "steps_entered (fst (scroll_loop d max_scrolls scrolls steps v p)) \<le> steps + nat (max_scrolls - scrolls)"
proof (induction d max_scrolls scrolls steps v p rule: scroll_loop.induct)
  case (1 d max_scrolls scrolls steps v p)
  show ?case
  proof (cases "scrolls < max_scrolls")
    case False
    then show ?thesis by (simp add: scroll_loop.simps [of d max_scrolls scrolls])
  next
    case True
    show ?thesis
    proof (cases "scroll_step d v p")
      case (Pair res p')
      show ?thesis
      proof (cases res)
        case (Inl e)
        with True Pair show ?thesis
          by (simp add: scroll_loop.simps [of d max_scrolls scrolls])
      next
        case (Inr t)
        obtain stop v' new_height where t: "t = (stop, v', new_height)" by (cases t) auto
        show ?thesis
        proof (cases stop)
          case True
          with \<open>scrolls < max_scrolls\<close> Pair Inr t show ?thesis
            by (simp add: scroll_loop.simps [of d max_scrolls scrolls])
        next
          case False
          from "1.IH" [OF \<open>scrolls < max_scrolls\<close> Pair [symmetric] Inr t [symmetric] _ False]
          have "steps_entered (fst (scroll_loop d max_scrolls (scrolls + 1) (Suc steps)
                  (v'\<lparr>last_height := new_height\<rparr>) p'))
                \<le> Suc steps + nat (max_scrolls - (scrolls + 1))"
            by simp
          with \<open>scrolls < max_scrolls\<close> Pair Inr t False show ?thesis
            by (simp add: scroll_loop.simps [of d max_scrolls scrolls])
        qed
      qed
    qed
  qed
qed

lemma scroll_page_steps: "steps_entered (fst (scroll_page d max_scrolls p)) \<le> nat max_scrolls"
proof (cases "then_do (execute_script d ReturnScrollHeight) (\<lambda>last_height.
           then_do (execute_script d (ScrollTo 500)) (\<lambda>_.
           then_do (try_except (then_do (count_elements d ''img'') (\<lambda>n. returns ())) (returns ()))
             (\<lambda>_. returns last_height))) p")
  case (Pair res p')
  show ?thesis
  proof (cases res)
    case (Inl e)
    with Pair show ?thesis by (simp add: scroll_page_def)
  next
    case (Inr height)
    let ?v = "\<lparr>last_height = height, last_product_count = 0, no_change_count = 0,
                   no_product_change_count = 0\<rparr>"
    obtain r p'' where l: "scroll_loop d max_scrolls 0 0 ?v p' = (r, p'')"
      by (cases "scroll_loop d max_scrolls 0 0 ?v p'") auto
    from scroll_loop_steps [of d max_scrolls 0 0 ?v p'] l
    have r: "steps_entered r \<le> nat max_scrolls" by simp
    from Pair Inr l have "steps_entered (fst (scroll_page d max_scrolls p)) = steps_entered r"
      by (simp add: scroll_page_def split: scroll_exit.split prod.split sum.split)
    with r show ?thesis by simp
  qed
qed

text \<open>
  Claim C8. For every browser and every state of the page, \<^verbatim>\<open>scroll_page\<close> enters the
  body of its scroll loop at most \<open>max_scrolls\<close> times (not at all when \<open>max_scrolls\<close>
  is negative); the loop is a total function, with \<open>max_scrolls - scrolls\<close> as its
  measure. This covers the page whose height and number of images never change: on such
  a page, with the limit of 150 steps that \<^verbatim>\<open>scrape_category_page\<close> passes, the loop
  is left by \<^verbatim>\<open>break\<close> in its tenth step.
\<close>

theorem scroll_page_bounded:
  "steps_entered (fst (scroll_page d max_scrolls p)) \<le> nat max_scrolls \<and>
   fst (scroll_page plateau_driver 150 0) =
     \<lparr>ended = Converged, scrolls_done = 9, steps_entered = 10\<rparr>"
proof
  show "steps_entered (fst (scroll_page d max_scrolls p)) \<le> nat max_scrolls"
    by (rule scroll_page_steps)
next
  show "fst (scroll_page plateau_driver 150 0) =
     \<lparr>ended = Converged, scrolls_done = 9, steps_entered = 10\<rparr>"
    by code_simp
qed

lemma never_raises_returns: "never_raises (returns a)"
  by (simp add: never_raises_def returns_def)

lemma never_raises_then_do:
  assumes "never_raises m" and "\<And>a. never_raises (f a)"
  shows "never_raises (then_do m f)"
proof -
  have "\<exists>b. fst (then_do m f p) = Inr b" for p
  proof -
    from assms(1) obtain a where a: "fst (m p) = Inr a" by (auto simp: never_raises_def)
    then obtain p' where "m p = (Inr a, p')" by (cases "m p") auto
    moreover from assms(2) obtain b where "fst (f a p') = Inr b" by (auto simp: never_raises_def)
    ultimately show ?thesis by (simp add: then_do_def)
  qed
  then show ?thesis by (simp add: never_raises_def)
qed

lemma never_raises_try_except:
  assumes "never_raises handler"
  shows "never_raises (try_except body handler)"
proof -
  have "\<exists>b. fst (try_except body handler p) = Inr b" for p
  proof (cases "body p")
    case (Pair res p')
    show ?thesis
    proof (cases res)
      case (Inl e)
      from assms obtain b where "fst (handler p') = Inr b" by (auto simp: never_raises_def)
      with Pair Inl show ?thesis by (simp add: try_except_def)
    next
      case (Inr a)
      with Pair show ?thesis by (simp add: try_except_def)
    qed
  qed
  then show ?thesis by (simp add: never_raises_def)
qed

lemma click_load_more_returns: "\<exists>a. fst (click_load_more d selectors p) = Inr a"
proof (induction selectors arbitrary: p)
  case Nil
  show ?case by simp
next
  case (Cons selector selectors)
  show ?case
    using Cons.IH by (simp split: prod.split sum.split)
qed

lemma never_raises_count_images: "never_raises (count_images d v)"
  unfolding count_images_def by (intro never_raises_try_except never_raises_returns)

lemma never_raises_script:
  "page_scripts_succeed d \<Longrightarrow> page_script s \<Longrightarrow> never_raises (execute_script d s)"
  by (simp add: page_scripts_succeed_def)

lemma page_script_simps:
  "page_script ReturnScrollHeight" "page_script ReturnPageYOffset" "page_script (ScrollTo n)"
  "page_script ScrollToBottom" "page_script SmoothScrollToBottom"
  by (simp_all add: page_script_def)

lemma never_raises_check_height:
  assumes "page_scripts_succeed d"
  shows "never_raises (check_height d v new_height)"
  unfolding check_height_def Let_def
  by (auto intro!: never_raises_then_do never_raises_returns never_raises_script [OF assms]
      simp: page_script_simps)

lemma never_raises_scroll_step:
  assumes "page_scripts_succeed d"
  shows "never_raises (scroll_step d v)"
  unfolding scroll_step_def
  by (intro never_raises_then_do never_raises_try_except never_raises_returns
      never_raises_count_images never_raises_check_height [OF assms]
      never_raises_script [OF assms] page_script_simps)

lemma scroll_loop_no_raise:
  assumes "page_scripts_succeed d"
  shows "ended (fst (scroll_loop d max_scrolls scrolls steps v p)) \<noteq> Raised e"
  using assms
proof (induction d max_scrolls scrolls steps v p rule: scroll_loop.induct)
  case (1 d max_scrolls scrolls steps v p)
  show ?case
  proof (cases "scrolls < max_scrolls")
    case False
    then show ?thesis by (simp add: scroll_loop.simps [of d max_scrolls scrolls])
  next
    case True
    from never_raises_scroll_step [OF "1.prems", of v]
    have "\<exists>t. fst (scroll_step d v p) = Inr t" unfolding never_raises_def by blast
    then obtain t where "fst (scroll_step d v p) = Inr t" by blast
    then obtain q where st: "scroll_step d v p = (Inr t, q)" by (cases "scroll_step d v p") auto
    obtain stop v' new_height where t: "t = (stop, v', new_height)" by (cases t) auto
    show ?thesis
    proof (cases stop)
      case True
      with \<open>scrolls < max_scrolls\<close> st t show ?thesis
        by (simp add: scroll_loop.simps [of d max_scrolls scrolls])
    next
      case False
      from "1.IH" [OF \<open>scrolls < max_scrolls\<close> st [symmetric] refl t [symmetric] refl False "1.prems"]
      have "ended (fst (scroll_loop d max_scrolls (scrolls + 1) (Suc steps)
                  (v'\<lparr>last_height := new_height\<rparr>) q)) \<noteq> Raised e" .
      with \<open>scrolls < max_scrolls\<close> st t False show ?thesis
        by (simp add: scroll_loop.simps [of d max_scrolls scrolls])
    qed
  qed
qed

lemma never_raises_scroll_back:
  assumes "page_scripts_succeed d"
  shows "never_raises (scroll_back d positions)"
proof (induction positions)
  case Nil
  show ?case by (simp add: never_raises_def)
next
  case (Cons i positions)
  have "scroll_back d (i # positions) =
      then_do (execute_script d ReturnScrollHeight) (\<lambda>height.
        let scroll_pos = height - i * 1000
        in if scroll_pos > 0
           then then_do (execute_script d (ScrollTo scroll_pos)) (\<lambda>_. scroll_back d positions)
           else scroll_back d positions)"
    by (rule ext) simp
  then show ?case
    using Cons
    by (auto simp: Let_def page_script_simps
        intro!: never_raises_then_do never_raises_script [OF assms])
qed

lemma never_raises_start:
  assumes "page_scripts_succeed d"
  shows "never_raises (then_do (execute_script d ReturnScrollHeight) (\<lambda>last_height.
           then_do (execute_script d (ScrollTo 500)) (\<lambda>_.
           then_do (try_except (then_do (count_elements d ''img'') (\<lambda>n. returns ())) (returns ()))
             (\<lambda>_. returns last_height))))"
  by (intro never_raises_then_do never_raises_try_except never_raises_returns
      never_raises_script [OF assms] page_script_simps)

lemma never_raises_finish:
  assumes "page_scripts_succeed d"
  shows "never_raises (then_do (execute_script d ScrollToBottom)
            (\<lambda>_. scroll_back d [0, 1, 2, 3, 4]))"
  by (intro never_raises_then_do never_raises_scroll_back [OF assms]
      never_raises_script [OF assms] page_script_simps)

lemma flaky_page_scripts_succeed: "page_scripts_succeed flaky_driver"
proof -
  have "never_raises (plateau_script s)" for s
    by (cases s) (simp_all add: never_raises_def plateau_script_def)
  then show ?thesis by (simp add: page_scripts_succeed_def flaky_driver_def)
qed
lemma load_more_errors_caught:
  assumes "page_scripts_succeed d"
  shows "ended (fst (scroll_page d max_scrolls p)) = Exhausted \<or>
         ended (fst (scroll_page d max_scrolls p)) = Converged"
proof -
  let ?start = "then_do (execute_script d ReturnScrollHeight) (\<lambda>last_height.
           then_do (execute_script d (ScrollTo 500)) (\<lambda>_.
           then_do (try_except (then_do (count_elements d ''img'') (\<lambda>n. returns ())) (returns ()))
             (\<lambda>_. returns last_height)))"
  let ?finish = "then_do (execute_script d ScrollToBottom) (\<lambda>_. scroll_back d [0, 1, 2, 3, 4])"
  from never_raises_start [OF assms] obtain height where "fst (?start p) = Inr height"
    by (auto simp: never_raises_def)
  then obtain q1 where s: "?start p = (Inr height, q1)" by (cases "?start p") auto
  let ?v = "\<lparr>last_height = height, last_product_count = 0, no_change_count = 0,
             no_product_change_count = 0\<rparr>"
  obtain r q2 where l: "scroll_loop d max_scrolls 0 0 ?v q1 = (r, q2)"
    by (cases "scroll_loop d max_scrolls 0 0 ?v q1") auto
  from scroll_loop_no_raise [OF assms, of max_scrolls 0 0 ?v q1] l
  have r: "ended r = Exhausted \<or> ended r = Converged"
    by (cases "ended r") auto
  from never_raises_finish [OF assms] obtain u where "fst (?finish q2) = Inr u"
    by (auto simp: never_raises_def)
  then obtain q3 where f: "?finish q2 = (Inr u, q3)" by (cases "?finish q2") auto
  from s l f r have "fst (scroll_page d max_scrolls p) = r"
    by (auto simp: scroll_page_def)
  with r show ?thesis by simp
qed

lemma scroll_page_start:
  "scroll_page d max_scrolls p =
     (case scroll_start d p of
        (Inl e, q) \<Rightarrow> (\<lparr>ended = Raised e, scrolls_done = 0, steps_entered = 0\<rparr>, q)
      | (Inr height, q) \<Rightarrow>
          (case scroll_loop d max_scrolls 0 0 (start_vars height) q of
             (r, q') \<Rightarrow>
               (case ended r of
                  Raised e \<Rightarrow> (r, q')
                | _ \<Rightarrow>
                    (case then_do (execute_script d ScrollToBottom)
                            (\<lambda>_. scroll_back d [0, 1, 2, 3, 4]) q' of
                       (Inl e, q'') \<Rightarrow> (r\<lparr>ended := Raised e\<rparr>, q'')
                     | (Inr u, q'') \<Rightarrow> (r, q'')))))"
  unfolding scroll_page_def scroll_start_def start_vars_def ..

lemma loop_head_scroll_loop:
  "loop_head d max_scrolls k scrolls steps v p = Some (scrolls', steps', v', p') \<Longrightarrow>
   scroll_loop d max_scrolls scrolls steps v p = scroll_loop d max_scrolls scrolls' steps' v' p'"
proof (induction k arbitrary: scrolls steps v p)
  case 0
  then show ?case by simp
next
  case (Suc k)
  from Suc.prems have lt: "scrolls < max_scrolls" by (simp split: if_splits)
  from Suc.prems lt obtain w nh q where
    st: "scroll_step d v p = (Inr (False, w, nh), q)" and
    h: "loop_head d max_scrolls k (scrolls + 1) (Suc steps) (w\<lparr>last_height := nh\<rparr>) q =
          Some (scrolls', steps', v', p')"
    by (auto split: prod.splits sum.splits if_splits)
  from Suc.IH [OF h] lt st show ?case
    by (simp add: scroll_loop.simps [of d max_scrolls scrolls])
qed

lemma scroll_loop_raises:
  "scrolls < max_scrolls \<Longrightarrow> fst (scroll_step d v p) = Inl e \<Longrightarrow>
   fst (scroll_loop d max_scrolls scrolls steps v p) =
     \<lparr>ended = Raised e, scrolls_done = scrolls, steps_entered = Suc steps\<rparr>"
  by (cases "scroll_step d v p") (simp add: scroll_loop.simps [of d max_scrolls scrolls])

lemma scroll_page_raises:
  assumes "scroll_start d p = (Inr height, q)"
    and "loop_head d max_scrolls k 0 0 (start_vars height) q = Some (scrolls, steps, v, q')"
    and "scrolls < max_scrolls"
    and "fst (scroll_step d v q') = Inl e"
  shows "fst (scroll_page d max_scrolls p) =
     \<lparr>ended = Raised e, scrolls_done = scrolls, steps_entered = Suc steps\<rparr>"
proof -
  obtain r q2 where l: "scroll_loop d max_scrolls 0 0 (start_vars height) q = (r, q2)"
    by (cases "scroll_loop d max_scrolls 0 0 (start_vars height) q") auto
  from loop_head_scroll_loop [OF assms(2)] scroll_loop_raises [OF assms(3,4), of steps] l
  have r: "r = \<lparr>ended = Raised e, scrolls_done = scrolls, steps_entered = Suc steps\<rparr>"
    by (metis fst_conv)
  from assms(1) l r show ?thesis
    by (simp add: scroll_page_start del: scroll_loop.simps)
qed

lemma step_raises:
  "fst (execute_script d ReturnPageYOffset p) = Inl e \<Longrightarrow> fst (scroll_step d v p) = Inl e"
  "execute_script d ReturnPageYOffset p = (Inr y, p1) \<Longrightarrow>
   fst (execute_script d (ScrollTo (y + 800)) p1) = Inl e \<Longrightarrow> fst (scroll_step d v p) = Inl e"
  "execute_script d ReturnPageYOffset p = (Inr y, p1) \<Longrightarrow>
   execute_script d (ScrollTo (y + 800)) p1 = (Inr z, p2) \<Longrightarrow>
   fst (execute_script d ReturnScrollHeight (snd (click_load_more d load_more_selectors p2))) = Inl e \<Longrightarrow>
   fst (scroll_step d v p) = Inl e"
  "execute_script d ReturnPageYOffset p = (Inr y, p1) \<Longrightarrow>
   execute_script d (ScrollTo (y + 800)) p1 = (Inr z, p2) \<Longrightarrow>
   execute_script d ReturnScrollHeight (snd (click_load_more d load_more_selectors p2)) = (Inr nh, p4) \<Longrightarrow>
   count_images d v p4 = (Inr w, p5) \<Longrightarrow>
   fst (check_height d w nh p5) = Inl e \<Longrightarrow>
   fst (scroll_step d v p) = Inl e"
  by (auto simp: scroll_step_def then_do_def try_except_def returns_def
      split: prod.splits sum.splits)

lemma height_raises:
  assumes "new_height = last_height v" and "5 \<le> no_change_count v + 1"
  shows
  "fst (execute_script d ScrollToBottom p) = Inl e \<Longrightarrow> fst (check_height d v new_height p) = Inl e"
  "execute_script d ScrollToBottom p = (Inr a, p1) \<Longrightarrow>
   fst (execute_script d ReturnScrollHeight p1) = Inl e \<Longrightarrow>
   fst (check_height d v new_height p) = Inl e"
  "execute_script d ScrollToBottom p = (Inr a, p1) \<Longrightarrow>
   execute_script d ReturnScrollHeight p1 = (Inr (last_height v), p2) \<Longrightarrow>
   fst (execute_script d SmoothScrollToBottom p2) = Inl e \<Longrightarrow>
   fst (check_height d v new_height p) = Inl e"
  "execute_script d ScrollToBottom p = (Inr a, p1) \<Longrightarrow>
   execute_script d ReturnScrollHeight p1 = (Inr (last_height v), p2) \<Longrightarrow>
   execute_script d SmoothScrollToBottom p2 = (Inr b, p3) \<Longrightarrow>
   fst (execute_script d ReturnScrollHeight p3) = Inl e \<Longrightarrow>
   fst (check_height d v new_height p) = Inl e"
  using assms
  by (auto simp: check_height_def then_do_def returns_def Let_def
      split: prod.splits sum.splits)

text \<open>
  Claim C5 as stated fails: in a scroll step only the search for a load-more button and
  the count of the images are inside a \<^verbatim>\<open>try\<close>. The scripts that read the scroll
  offset, scroll, and read the height are outside, so an exception of theirs leaves
  \<^verbatim>\<open>scroll_page\<close>. When the script that reads the scroll offset raises, the method
  ends in its first step with that exception.
\<close>

theorem scroll_script_error_propagates:
  "fst (scroll_page broken_driver 150 0) =
     \<lparr>ended = Raised WebDriverException, scrolls_done = 0, steps_entered = 1\<rparr>"
  by code_simp

text \<open>
  Claim C5 as amended. In a scroll step, every exception raised while a load-more button
  is looked for, tested, scrolled into view and clicked, or while the images are counted,
  is caught and the step goes on: when the scripts that read the scroll offset, scroll,
  and read the height do not raise, \<^verbatim>\<open>scroll_page\<close> ends normally (by the loop
  condition or by \<^verbatim>\<open>break\<close>), whatever the searches for a button, the two scripts on a
  button and the counts of the images do. An exception of one of the step's own scripts
  is not caught. Raised by the script that reads the scroll offset (line 503), by the
  scroll (line 505), by the reading of the height (line 539) or, after five steps
  without a change of the height, by the scroll to the bottom, the smooth scroll or the
  readings of the height that follow them (lines 559 to 567), it ends the step; and an
  exception that ends a step, whichever step of the run it is, ends \<^verbatim>\<open>scroll_page\<close>
  with that exception.
\<close>

theorem scroll_step_errors:
  "(page_scripts_succeed d \<longrightarrow>
      ended (fst (scroll_page d max_scrolls p)) = Exhausted \<or>
      ended (fst (scroll_page d max_scrolls p)) = Converged) \<and>
   (fst (execute_script d ReturnPageYOffset p) = Inl e \<longrightarrow> fst (scroll_step d v p) = Inl e) \<and>
   (execute_script d ReturnPageYOffset p = (Inr y, p1) \<and>
    fst (execute_script d (ScrollTo (y + 800)) p1) = Inl e \<longrightarrow>
      fst (scroll_step d v p) = Inl e) \<and>
   (execute_script d ReturnPageYOffset p = (Inr y, p1) \<and>
    execute_script d (ScrollTo (y + 800)) p1 = (Inr z, p2) \<and>
    fst (execute_script d ReturnScrollHeight (snd (click_load_more d load_more_selectors p2))) = Inl e \<longrightarrow>
      fst (scroll_step d v p) = Inl e) \<and>
   (execute_script d ReturnPageYOffset p = (Inr y, p1) \<and>
    execute_script d (ScrollTo (y + 800)) p1 = (Inr z, p2) \<and>
    execute_script d ReturnScrollHeight (snd (click_load_more d load_more_selectors p2)) = (Inr nh, p4) \<and>
    count_images d v p4 = (Inr w, p5) \<and>
    fst (check_height d w nh p5) = Inl e \<longrightarrow>
      fst (scroll_step d v p) = Inl e) \<and>
   (new_height = last_height v \<and> 5 \<le> no_change_count v + 1 \<and>
    fst (execute_script d ScrollToBottom p) = Inl e \<longrightarrow>
      fst (check_height d v new_height p) = Inl e) \<and>
   (new_height = last_height v \<and> 5 \<le> no_change_count v + 1 \<and>
    execute_script d ScrollToBottom p = (Inr a, p1) \<and>
    fst (execute_script d ReturnScrollHeight p1) = Inl e \<longrightarrow>
      fst (check_height d v new_height p) = Inl e) \<and>
   (new_height = last_height v \<and> 5 \<le> no_change_count v + 1 \<and>
    execute_script d ScrollToBottom p = (Inr a, p1) \<and>
    execute_script d ReturnScrollHeight p1 = (Inr (last_height v), p2) \<and>
    fst (execute_script d SmoothScrollToBottom p2) = Inl e \<longrightarrow>
      fst (check_height d v new_height p) = Inl e) \<and>
   (new_height = last_height v \<and> 5 \<le> no_change_count v + 1 \<and>
    execute_script d ScrollToBottom p = (Inr a, p1) \<and>
    execute_script d ReturnScrollHeight p1 = (Inr (last_height v), p2) \<and>
    execute_script d SmoothScrollToBottom p2 = (Inr b, p3) \<and>
    fst (execute_script d ReturnScrollHeight p3) = Inl e \<longrightarrow>
      fst (check_height d v new_height p) = Inl e) \<and>
   (scroll_start d p = (Inr height, q) \<and>
    loop_head d max_scrolls k 0 0 (start_vars height) q = Some (scrolls, steps, v, q') \<and>
    scrolls < max_scrolls \<and>
    fst (scroll_step d v q') = Inl e \<longrightarrow>
      fst (scroll_page d max_scrolls p) =
        \<lparr>ended = Raised e, scrolls_done = scrolls, steps_entered = Suc steps\<rparr>)"
proof (intro conjI impI)
  assume "page_scripts_succeed d"
  then show "ended (fst (scroll_page d max_scrolls p)) = Exhausted \<or>
      ended (fst (scroll_page d max_scrolls p)) = Converged"
    by (rule load_more_errors_caught)
next
  assume "fst (execute_script d ReturnPageYOffset p) = Inl e"
  then show "fst (scroll_step d v p) = Inl e" by (rule step_raises(1))
next
  assume "execute_script d ReturnPageYOffset p = (Inr y, p1) \<and>
    fst (execute_script d (ScrollTo (y + 800)) p1) = Inl e"
  then show "fst (scroll_step d v p) = Inl e" by (elim conjE) (rule step_raises(2))
next
  assume "execute_script d ReturnPageYOffset p = (Inr y, p1) \<and>
    execute_script d (ScrollTo (y + 800)) p1 = (Inr z, p2) \<and>
    fst (execute_script d ReturnScrollHeight (snd (click_load_more d load_more_selectors p2))) = Inl e"
  then show "fst (scroll_step d v p) = Inl e" by (elim conjE) (rule step_raises(3))
next
  assume "execute_script d ReturnPageYOffset p = (Inr y, p1) \<and>
    execute_script d (ScrollTo (y + 800)) p1 = (Inr z, p2) \<and>
    execute_script d ReturnScrollHeight (snd (click_load_more d load_more_selectors p2)) = (Inr nh, p4) \<and>
    count_images d v p4 = (Inr w, p5) \<and>
    fst (check_height d w nh p5) = Inl e"
  then show "fst (scroll_step d v p) = Inl e" by (elim conjE) (rule step_raises(4))
next
  assume "new_height = last_height v \<and> 5 \<le> no_change_count v + 1 \<and>
    fst (execute_script d ScrollToBottom p) = Inl e"
  then show "fst (check_height d v new_height p) = Inl e" by (elim conjE) (rule height_raises(1))
next
  assume "new_height = last_height v \<and> 5 \<le> no_change_count v + 1 \<and>
    execute_script d ScrollToBottom p = (Inr a, p1) \<and>
    fst (execute_script d ReturnScrollHeight p1) = Inl e"
  then show "fst (check_height d v new_height p) = Inl e" by (elim conjE) (rule height_raises(2))
next
  assume "new_height = last_height v \<and> 5 \<le> no_change_count v + 1 \<and>
    execute_script d ScrollToBottom p = (Inr a, p1) \<and>
    execute_script d ReturnScrollHeight p1 = (Inr (last_height v), p2) \<and>
    fst (execute_script d SmoothScrollToBottom p2) = Inl e"
  then show "fst (check_height d v new_height p) = Inl e" by (elim conjE) (rule height_raises(3))
next
  assume "new_height = last_height v \<and> 5 \<le> no_change_count v + 1 \<and>
    execute_script d ScrollToBottom p = (Inr a, p1) \<and>
    execute_script d ReturnScrollHeight p1 = (Inr (last_height v), p2) \<and>
    execute_script d SmoothScrollToBottom p2 = (Inr b, p3) \<and>
    fst (execute_script d ReturnScrollHeight p3) = Inl e"
  then show "fst (check_height d v new_height p) = Inl e" by (elim conjE) (rule height_raises(4))
next
  assume "scroll_start d p = (Inr height, q) \<and>
    loop_head d max_scrolls k 0 0 (start_vars height) q = Some (scrolls, steps, v, q') \<and>
    scrolls < max_scrolls \<and>
    fst (scroll_step d v q') = Inl e"
  then show "fst (scroll_page d max_scrolls p) =
        \<lparr>ended = Raised e, scrolls_done = scrolls, steps_entered = Suc steps\<rparr>"
    by (elim conjE) (rule scroll_page_raises)
qed

theorem scroll_step_errors_witness:
  "page_scripts_succeed flaky_driver \<and>
   fst (find_element flaky_driver ''button[class*='load-more' i]'' 0) = Inl WebDriverException \<and>
   fst (count_elements flaky_driver ''img'' 0) = Inl WebDriverException \<and>
   fst (scroll_page flaky_driver 12 0) =
     \<lparr>ended = Exhausted, scrolls_done = 12, steps_entered = 12\<rparr> \<and>
   scroll_start broken_driver 0 = (Inr 3000, 500) \<and>
   loop_head broken_driver 150 0 0 0 (start_vars 3000) 500 = Some (0, 0, start_vars 3000, 500) \<and>
   fst (execute_script broken_driver ReturnPageYOffset 500) = Inl WebDriverException \<and>
   fst (scroll_step broken_driver (start_vars 3000) 500) = Inl WebDriverException \<and>
   fst (scroll_page broken_driver 150 0) =
     \<lparr>ended = Raised WebDriverException, scrolls_done = 0, steps_entered = 1\<rparr>"
proof -
  have h: "page_scripts_succeed flaky_driver"
    by (rule flaky_page_scripts_succeed)
  have f: "fst (find_element flaky_driver ''button[class*='load-more' i]'' 0) = Inl WebDriverException"
    and c: "fst (count_elements flaky_driver ''img'' 0) = Inl WebDriverException"
    by (simp_all add: flaky_driver_def)
  have s: "steps_entered (fst (scroll_page flaky_driver 12 0)) = 12"
    and n: "scrolls_done (fst (scroll_page flaky_driver 12 0)) = 12"
    by code_simp+
  have "ended (fst (scroll_page flaky_driver 12 0)) = Exhausted \<or>
        ended (fst (scroll_page flaky_driver 12 0)) = Converged"
    by (rule scroll_step_errors [THEN conjunct1, rule_format]) (rule h)
  moreover have "ended (fst (scroll_page flaky_driver 12 0)) \<noteq> Converged"
    by code_simp
  ultimately have "ended (fst (scroll_page flaky_driver 12 0)) = Exhausted" by blast
  with s n have flaky: "fst (scroll_page flaky_driver 12 0) =
     \<lparr>ended = Exhausted, scrolls_done = 12, steps_entered = 12\<rparr>"
    by (cases "fst (scroll_page flaky_driver 12 0)") simp
  have st: "scroll_start broken_driver 0 = (Inr 3000, 500)"
    by code_simp
  have lh: "loop_head broken_driver 150 0 0 0 (start_vars 3000) 500 = Some (0, 0, start_vars 3000, 500)"
    by simp
  have off: "fst (execute_script broken_driver ReturnPageYOffset 500) = Inl WebDriverException"
    by (simp add: broken_driver_def)
  have step: "fst (scroll_step broken_driver (start_vars 3000) 500) = Inl WebDriverException"
    by (rule scroll_step_errors [THEN conjunct2, THEN conjunct1, rule_format]) (rule off)
  have lt: "(0::int) < 150" by simp
  have broken: "fst (scroll_page broken_driver 150 0) =
     \<lparr>ended = Raised WebDriverException, scrolls_done = 0, steps_entered = Suc 0\<rparr>"
    by (rule scroll_step_errors [THEN conjunct2, THEN conjunct2, THEN conjunct2, THEN conjunct2,
          THEN conjunct2, THEN conjunct2, THEN conjunct2, THEN conjunct2, THEN conjunct2,
          rule_format])
      (rule conjI, rule st, rule conjI, rule lh, rule conjI, rule lt, rule step)
  from h f c flaky st lh off step broken show ?thesis by simp
qed

end
